theory Spec2Isabelle
  imports Main "HOL-Library.AList" "HOL-Library.Sublist"
begin

section \<open>Python values, dictionaries and errors\<close>

text \<open>
  The generator works on one Python \<^verbatim>\<open>dict\<close> with string keys (the build options, to
  which the derived parameters are added). Its values are strings, booleans, integers,
  \<^verbatim>\<open>None\<close>, and one string-to-string dictionary (the extra sources). A dictionary
  keeps its insertion order, so the extra sources are an association list.
\<close>

datatype pyval =
    PNone
  | PBool bool
  | PInt int
  | PStr string
  | PDict "(string \<times> string) list"

type_synonym pydict = "string \<rightharpoonup> pyval"

text \<open>
  The exceptions the generator can raise. \<open>KeyError k\<close> is what a subscript
  \<^verbatim>\<open>args[k]\<close> and a placeholder \<^verbatim>\<open>{k}\<close> raise when the key \<open>k\<close> is missing; it
  carries the name of the missing field.
\<close>

datatype error =
    KeyError string
  | AttributeError
  | TypeError
  | ValueError

abbreviation (input) SQ :: char where "SQ \<equiv> CHR 0x27"
abbreviation (input) BS :: char where "BS \<equiv> CHR 0x5C"
abbreviation (input) DQ :: char where "DQ \<equiv> CHR 0x22"

definition and_then :: "error + 'a \<Rightarrow> ('a \<Rightarrow> error + 'b) \<Rightarrow> error + 'b" where
  "and_then m f = (case m of Inl e \<Rightarrow> Inl e | Inr x \<Rightarrow> f x)"

text \<open>Subscription \<^verbatim>\<open>d[k]\<close>.\<close>

definition getitem :: "pydict \<Rightarrow> string \<Rightarrow> error + pyval" where
  "getitem d k = (case d k of None \<Rightarrow> Inl (KeyError k) | Some v \<Rightarrow> Inr v)"

text \<open>Truth value of an object, as \<^verbatim>\<open>if x:\<close> tests it.\<close>

fun truthy :: "pyval \<Rightarrow> bool" where
  "truthy PNone = False"
| "truthy (PBool b) = b"
| "truthy (PInt i) = (i \<noteq> 0)"
| "truthy (PStr s) = (s \<noteq> [])"
| "truthy (PDict kvs) = (kvs \<noteq> [])"

subsection \<open>Conversion to text\<close>

definition digit_char :: "nat \<Rightarrow> char" where
  "digit_char n = char_of (48 + n mod 10)"

fun show_nat :: "nat \<Rightarrow> string" where
  "show_nat n = (if n < 10 then [digit_char n] else show_nat (n div 10) @ [digit_char n])"

declare show_nat.simps [simp del]

definition show_int :: "int \<Rightarrow> string" where
  "show_int i = (if i < 0 then CHR ''-'' # show_nat (nat (- i)) else show_nat (nat i))"

definition hex_char :: "nat \<Rightarrow> char" where
  "hex_char n = (if n mod 16 < 10 then char_of (48 + n mod 16) else char_of (87 + n mod 16))"

text \<open>\<^verbatim>\<open>sep.join(xs)\<close>.\<close>

fun py_join :: "string \<Rightarrow> string list \<Rightarrow> string" where
  "py_join sep [] = []"
| "py_join sep [x] = x"
| "py_join sep (x # y # ys) = x @ sep @ py_join sep (y # ys)"

text \<open>
  \<^verbatim>\<open>repr\<close> of a string: double quotes when the string has a single quote and
  no double quote, single quotes otherwise; the delimiter, the backslash and the control
  characters are escaped.
\<close>

definition repr_char :: "char \<Rightarrow> char \<Rightarrow> string" where
  "repr_char q c =
     (if c = BS then [BS, BS]
      else if c = q then [BS, q]
      else if c = CHR 0x0A then [BS, CHR ''n'']
      else if c = CHR 0x0D then [BS, CHR ''r'']
      else if c = CHR 0x09 then [BS, CHR ''t'']
      else if of_char c < (32::nat) \<or> of_char c = (127::nat)
        then [BS, CHR ''x'', hex_char (of_char c div 16), hex_char (of_char c)]
      else [c])"

definition py_repr_str :: "string \<Rightarrow> string" where
  "py_repr_str s =
     (let q = (if SQ \<in> set s \<and> DQ \<notin> set s then DQ else SQ)
      in q # concat (map (repr_char q) s) @ [q])"

text \<open>\<^verbatim>\<open>format(v, '')\<close>, the text a placeholder \<^verbatim>\<open>{k}\<close> is replaced by.\<close>

fun py_str :: "pyval \<Rightarrow> string" where
  "py_str PNone = ''None''"
| "py_str (PBool b) = (if b then ''True'' else ''False'')"
| "py_str (PInt i) = show_int i"
| "py_str (PStr s) = s"
| "py_str (PDict kvs) =
     ''{'' @ py_join '', '' (map (\<lambda>(k, v). py_repr_str k @ '': '' @ py_repr_str v) kvs) @ ''}''"

subsection \<open>Format strings\<close>

text \<open>
  A format string is the list of its literal parts and its placeholders (\<^verbatim>\<open>{{\<close> and
  \<^verbatim>\<open>}}\<close> of the source are the literal braces). \<^verbatim>\<open>fmt.format(**d)\<close> substitutes
  from left to right and raises \<^verbatim>\<open>KeyError\<close> at the first placeholder that \<open>d\<close> has
  no key for.
\<close>

datatype piece = Lit string | Field string

fun py_format :: "piece list \<Rightarrow> pydict \<Rightarrow> error + string" where
  "py_format [] d = Inr []"
| "py_format (Lit s # ps) d = and_then (py_format ps d) (\<lambda>r. Inr (s @ r))"
| "py_format (Field k # ps) d =
     and_then (getitem d k) (\<lambda>v. and_then (py_format ps d) (\<lambda>r. Inr (py_str v @ r)))"

text \<open>
  \<^verbatim>\<open>s.replace(old, new)\<close> for a non-empty \<open>old\<close>: every occurrence, found from the
  left and not overlapping, is replaced.
\<close>

fun py_replace :: "string \<Rightarrow> string \<Rightarrow> string \<Rightarrow> string" where
  "py_replace old new [] = []"
| "py_replace old new (c # cs) =
     (if old \<noteq> [] \<and> prefix old (c # cs)
      then new @ py_replace old new (drop (length old - 1) cs)
      else c # py_replace old new cs)"

text \<open>
  \<^verbatim>\<open>base.update(other)\<close>: a key already present keeps its position and takes the new
  value, a new key is appended. Updating from the empty string changes nothing, from
  another string raises \<^verbatim>\<open>ValueError\<close>, from an object that is not iterable
  \<^verbatim>\<open>TypeError\<close>.
\<close>

definition dict_update :: "(string \<times> pyval) list \<Rightarrow> pyval \<Rightarrow> error + (string \<times> pyval) list" where
  "dict_update base other =
     (case other of
        PDict kvs \<Rightarrow> Inr (fold (\<lambda>(k, v). AList.update k (PStr v)) kvs base)
      | PStr s \<Rightarrow> (if s = [] then Inr base else Inl ValueError)
      | _ \<Rightarrow> Inl TypeError)"

text \<open>\<^verbatim>\<open>enumerate(xs)\<close>.\<close>

definition enumerate_list :: "'a list \<Rightarrow> (nat \<times> 'a) list" where
  "enumerate_list xs = zip [0..<length xs] xs"

subsection \<open>The clock\<close>

text \<open>
  \<^verbatim>\<open>datetime.now()\<close> is an input of the generator: the reading of the clock is a
  parameter. \<^verbatim>\<open>strftime("%Y%m%d-%H%M%S")\<close> prints the fields zero-padded.
\<close>

record datetime =
  year :: nat
  month :: nat
  day :: nat
  hour :: nat
  minute :: nat
  second :: nat

definition pad2 :: "nat \<Rightarrow> string" where
  "pad2 n = [digit_char (n div 10), digit_char n]"

definition pad4 :: "nat \<Rightarrow> string" where
  "pad4 n = [digit_char (n div 1000), digit_char (n div 100), digit_char (n div 10), digit_char n]"

definition strftime :: "datetime \<Rightarrow> string" where
  "strftime t =
     pad4 (year t) @ pad2 (month t) @ pad2 (day t) @ ''-'' @
     pad2 (hour t) @ pad2 (minute t) @ pad2 (second t)"

definition valid_datetime :: "datetime \<Rightarrow> bool" where
  "valid_datetime t \<longleftrightarrow>
     1000 \<le> year t \<and> year t \<le> 9999 \<and> 1 \<le> month t \<and> month t \<le> 12 \<and>
     1 \<le> day t \<and> day t \<le> 31 \<and> hour t < 24 \<and> minute t < 60 \<and> second t < 60"

section \<open>The generator\<close>

subsection \<open>Parameter derivation: \<^verbatim>\<open>_init_args\<close>\<close>

text \<open>
  Each assignment \<^verbatim>\<open>self.args[k] = e\<close> of \<^verbatim>\<open>_init_args\<close> is one statement on the
  dictionary: it either raises, leaving the dictionary as it is, or stores the value.
\<close>

type_synonym stmt = "pydict \<Rightarrow> error + pydict"

text \<open>
  Statements run in order; the first one that raises ends the run, and the dictionary
  keeps what the statements before it have stored.
\<close>

fun exec :: "stmt list \<Rightarrow> pydict \<Rightarrow> error option \<times> pydict" where
  "exec [] d = (None, d)"
| "exec (s # ss) d = (case s d of Inl e \<Rightarrow> (Some e, d) | Inr d' \<Rightarrow> exec ss d')"

text \<open>
  Lines 136 to 138. The call \<^verbatim>\<open>format(timestamp=..., **self.args)\<close> raises
  \<^verbatim>\<open>TypeError\<close> when the dictionary has a key \<^verbatim>\<open>timestamp\<close> of its own.
\<close>

definition run_id_format :: "piece list" where
  "run_id_format = [Lit ''custom-image-'', Field ''image_name'', Lit ''-'', Field ''timestamp'']"

definition set_run_id :: "datetime \<Rightarrow> stmt" where
  "set_run_id now d =
     (if d ''run_id'' = None
      then (if d ''timestamp'' \<noteq> None then Inl TypeError
            else and_then (py_format run_id_format (d(''timestamp'' \<mapsto> PStr (strftime now))))
                   (\<lambda>s. Inr (d(''run_id'' \<mapsto> PStr s))))
      else Inr d)"

text \<open>Line 139.\<close>

definition set_bucket_name :: stmt where
  "set_bucket_name d =
     and_then (getitem d ''gcs_bucket'')
       (\<lambda>v. case v of
               PStr s \<Rightarrow> Inr (d(''bucket_name'' \<mapsto> PStr (py_replace ''gs://'' '''' s)))
             | _ \<Rightarrow> Inl AttributeError)"

text \<open>Line 140.\<close>

definition set_custom_sources_path :: stmt where
  "set_custom_sources_path d =
     and_then
       (py_format [Lit ''gs://'', Field ''bucket_name'', Lit ''/'', Field ''run_id'', Lit ''/sources''] d)
       (\<lambda>s. Inr (d(''custom_sources_path'' \<mapsto> PStr s)))"

text \<open>
  Lines 142 to 146, the local \<^verbatim>\<open>all_sources\<close>: the two fixed entries, updated with
  the extra sources.
\<close>

definition all_sources :: "pydict \<Rightarrow> error + (string \<times> pyval) list" where
  "all_sources d =
     and_then (getitem d ''customization_script'')
       (\<lambda>script. and_then (getitem d ''extra_sources'')
          (\<lambda>extra. dict_update
             [(''run.sh'', PStr ''startup_script/run.sh''), (''init_actions.sh'', script)] extra))"

text \<open>
  Lines 148 to 152. One element of a rendered array is \<^verbatim>\<open>[i]='text'\<close>, every single
  quote of the text replaced by \<^verbatim>\<open>'\''\<close>. Only a string has \<^verbatim>\<open>replace\<close>.
\<close>

definition shell_escape :: "string \<Rightarrow> string" where
  "shell_escape s = py_replace [SQ] [SQ, BS, SQ, SQ] s"

definition array_entry :: "nat \<Rightarrow> string \<Rightarrow> string" where
  "array_entry i s = ''['' @ show_nat i @ '']='' @ [SQ] @ shell_escape s @ [SQ]"

fun value_entries :: "(nat \<times> string \<times> pyval) list \<Rightarrow> error + string list" where
  "value_entries [] = Inr []"
| "value_entries ((i, k, v) # rest) =
     (case v of
        PStr s \<Rightarrow> and_then (value_entries rest) (\<lambda>es. Inr (array_entry i s # es))
      | _ \<Rightarrow> Inl AttributeError)"

definition key_entries :: "(nat \<times> string \<times> pyval) list \<Rightarrow> string list" where
  "key_entries items = map (\<lambda>(i, k, v). array_entry i k) items"

text \<open>
  The two statements share the locals \<^verbatim>\<open>all_sources\<close> and \<^verbatim>\<open>sources_map_items\<close>;
  the model computes them in each, from entries of the dictionary that the first
  statement does not change.
\<close>

definition set_sources_map_k :: stmt where
  "set_sources_map_k d =
     and_then (all_sources d)
       (\<lambda>items. Inr (d(''sources_map_k'' \<mapsto> PStr (py_join '' '' (key_entries (enumerate_list items))))))"

definition set_sources_map_v :: stmt where
  "set_sources_map_v d =
     and_then (all_sources d)
       (\<lambda>items. and_then (value_entries (enumerate_list items))
          (\<lambda>es. Inr (d(''sources_map_v'' \<mapsto> PStr (py_join '' '' es)))))"

text \<open>Lines 154 to 156.\<close>

definition set_log_dir :: stmt where
  "set_log_dir d =
     and_then (py_format [Lit ''/tmp/'', Field ''run_id'', Lit ''/logs''] d)
       (\<lambda>s. Inr (d(''log_dir'' \<mapsto> PStr s)))"

definition set_gcs_log_dir :: stmt where
  "set_gcs_log_dir d =
     and_then
       (py_format [Lit ''gs://'', Field ''bucket_name'', Lit ''/'', Field ''run_id'', Lit ''/logs''] d)
       (\<lambda>s. Inr (d(''gcs_log_dir'' \<mapsto> PStr s)))"

text \<open>Lines 157 to 162: no branch is taken when both options are false.\<close>

definition set_network_flags :: stmt where
  "set_network_flags d =
     and_then (getitem d ''subnetwork'')
       (\<lambda>sub. if truthy sub
          then and_then (py_format [Lit ''--subnet='', Field ''subnetwork''] d)
                 (\<lambda>s. Inr (d(''subnetwork_flag'' \<mapsto> PStr s, ''network_flag'' \<mapsto> PStr '''')))
          else and_then (getitem d ''network'')
                 (\<lambda>net. if truthy net
                    then and_then (py_format [Lit ''--network='', Field ''network''] d)
                           (\<lambda>s. Inr (d(''network_flag'' \<mapsto> PStr s, ''subnetwork_flag'' \<mapsto> PStr '''')))
                    else Inr d))"

text \<open>Lines 163 to 166: an \<^verbatim>\<open>if\<close> without \<^verbatim>\<open>else\<close>.\<close>

definition set_service_account_flag :: stmt where
  "set_service_account_flag d =
     and_then (getitem d ''service_account'')
       (\<lambda>sa. if truthy sa
          then and_then (py_format [Lit ''--service-account='', Field ''service_account''] d)
                 (\<lambda>s. Inr (d(''service_account_flag'' \<mapsto> PStr s)))
          else Inr d)"

text \<open>Lines 167 to 174: conditional expressions, with the empty string as the other value.\<close>

definition set_no_external_ip_flag :: stmt where
  "set_no_external_ip_flag d =
     and_then (getitem d ''no_external_ip'')
       (\<lambda>b. Inr (d(''no_external_ip_flag'' \<mapsto> PStr (if truthy b then ''--no-address'' else ''''))))"

definition set_accelerator_flag :: stmt where
  "set_accelerator_flag d =
     and_then (getitem d ''accelerator'')
       (\<lambda>a. if truthy a
          then and_then
                 (py_format [Lit ''--accelerator='', Field ''accelerator'',
                             Lit '' --maintenance-policy terminate''] d)
                 (\<lambda>s. Inr (d(''accelerator_flag'' \<mapsto> PStr s)))
          else Inr (d(''accelerator_flag'' \<mapsto> PStr '''')))"

definition set_storage_location_flag :: stmt where
  "set_storage_location_flag d =
     and_then (getitem d ''storage_location'')
       (\<lambda>l. if truthy l
          then and_then (py_format [Lit ''--storage-location='', Field ''storage_location''] d)
                 (\<lambda>s. Inr (d(''storage_location_flag'' \<mapsto> PStr s)))
          else Inr (d(''storage_location_flag'' \<mapsto> PStr '''')))"

text \<open>Lines 175 to 180.\<close>

definition metadata_flag_template :: "piece list" where
  "metadata_flag_template =
     [Lit ''--metadata=shutdown-timer-in-sec='', Field ''shutdown_timer_in_sec'',
      Lit '',custom-sources-path='', Field ''custom_sources_path'']"

definition set_metadata_flag :: stmt where
  "set_metadata_flag d =
     and_then (getitem d ''metadata'')
       (\<lambda>m. and_then
          (py_format
             (if truthy m then metadata_flag_template @ [Lit '','', Field ''metadata'']
              else metadata_flag_template) d)
          (\<lambda>s. Inr (d(''metadata_flag'' \<mapsto> PStr s))))"

definition init_args_stmts :: "datetime \<Rightarrow> stmt list" where
  "init_args_stmts now =
     [set_run_id now, set_bucket_name, set_custom_sources_path,
      set_sources_map_k, set_sources_map_v, set_log_dir, set_gcs_log_dir,
      set_network_flags, set_service_account_flag, set_no_external_ip_flag,
      set_accelerator_flag, set_storage_location_flag, set_metadata_flag]"

text \<open>
  \<^verbatim>\<open>_init_args\<close> on the dictionary it is given: the error raised, if any, and the
  dictionary as the call leaves it.
\<close>

definition init_args :: "datetime \<Rightarrow> pydict \<Rightarrow> error option \<times> pydict" where
  "init_args now d = exec (init_args_stmts now) d"

subsection \<open>The workflow template\<close>

text \<open>
  The value of \<^verbatim>\<open>_template\<close>, one line of the script per line below. In the source, a
  backslash at the end of a line of the literal joins it with the next line, and
  \<^verbatim>\<open>\\\<close> is one backslash.
\<close>

definition template :: "piece list" where
  "template = [
   Lit ''\<newline>'',
   Lit ''#!/usr/bin/env bash\<newline>'',
   Lit ''\<newline>'',
   Lit ''# Script for creating Dataproc custom image.\<newline>'',
   Lit ''\<newline>'',
   Lit ''set -euxo pipefail\<newline>'',
   Lit ''\<newline>'',
   Lit (''RED='' @ [SQ, BS] @ ''e[0;31m'\<newline>''),
   Lit (''GREEN='' @ [SQ, BS] @ ''e[0;32m'\<newline>''),
   Lit (''NC='' @ [SQ, BS] @ ''e[0m'\<newline>''),
   Lit ''\<newline>'',
   Lit ''function exit_handler() {\<newline>'',
   Lit ''  echo 'Cleaning up before exiting.'\<newline>'',
   Lit ''\<newline>'',
   Lit ''  if [[ -f /tmp/'', Field ''run_id'', Lit ''/vm_created ]]; then\<newline>'',
   Lit ''    echo 'Deleting VM instance.'\<newline>'',
   Lit ''    gcloud compute instances delete '',
     Field ''image_name'',
     Lit ''-install         --project='',
     Field ''project_id'',
     Lit '' --zone='',
     Field ''zone'',
     Lit '' -q\<newline>'',
   Lit ''  elif [[ -f /tmp/'', Field ''run_id'', Lit ''/disk_created ]]; then\<newline>'',
   Lit ''    echo 'Deleting disk.'\<newline>'',
   Lit ''    gcloud compute disks delete '',
     Field ''image_name'',
     Lit ''-install --project='',
     Field ''project_id'',
     Lit '' --zone='',
     Field ''zone'',
     Lit '' -q\<newline>'',
   Lit ''  fi\<newline>'',
   Lit ''\<newline>'',
   Lit ''  echo 'Uploading local logs to GCS bucket.'\<newline>'',
   Lit ''  gsutil -m rsync -r '',
     Field ''log_dir'',
     Lit ''/ '',
     Field ''gcs_log_dir'',
     Lit ''/\<newline>'',
   Lit ''\<newline>'',
   Lit ''  if [[ -f /tmp/'', Field ''run_id'', Lit ''/image_created ]]; then\<newline>'',
   Lit ''    echo -e \"${GREEN}Workflow succeeded, check logs at '',
     Field ''log_dir'',
     Lit ''/ or '',
     Field ''gcs_log_dir'',
     Lit ''/${NC}\"\<newline>'',
   Lit ''    exit 0\<newline>'',
   Lit ''  else\<newline>'',
   Lit ''    echo -e \"${RED}Workflow failed, check logs at '',
     Field ''log_dir'',
     Lit ''/ or '',
     Field ''gcs_log_dir'',
     Lit ''/${NC}\"\<newline>'',
   Lit ''    exit 1\<newline>'',
   Lit ''  fi\<newline>'',
   Lit ''}\<newline>'',
   Lit ''\<newline>'',
   Lit ''function main() {\<newline>'',
   Lit ''  echo 'Uploading files to GCS bucket.'\<newline>'',
   Lit ''  declare -a sources_k=('', Field ''sources_map_k'', Lit '')\<newline>'',
   Lit ''  declare -a sources_v=('', Field ''sources_map_v'', Lit '')\<newline>'',
   Lit ''  for i in \"${!sources_k[@]}\"; do\<newline>'',
   Lit ''    gsutil cp \"${sources_v[i]}\" \"'',
     Field ''custom_sources_path'',
     Lit ''/${sources_k[i]}\"\<newline>'',
   Lit ''  done\<newline>'',
   Lit ''\<newline>'',
   Lit ''  echo 'Creating disk.'\<newline>'',
   Lit (''  if [[ '' @ [SQ]),
     Field ''base_image_family'',
     Lit ([SQ] @ '' = '' @ [SQ, SQ] @ '' ||  '' @ [SQ]),
     Field ''base_image_family'',
     Lit ([SQ] @ '' = 'None' ]]; then\<newline>''),
   Lit ''     IMAGE_SOURCE=\"--image='', Field ''base_image'', Lit ''\"\<newline>'',
   Lit ''  else\<newline>'',
   Lit ''     IMAGE_SOURCE=\"--image-family='', Field ''base_image_family'', Lit ''\"\<newline>'',
   Lit ''  fi\<newline>'',
   Lit ''  \<newline>'',
   Lit ''  gcloud compute disks create '',
     Field ''image_name'',
     Lit ''-install       --project='',
     Field ''project_id'',
     Lit ''       --zone='',
     Field ''zone'',
     Lit ''       ${IMAGE_SOURCE}       --type=pd-ssd       --size='',
     Field ''disk_size'',
     Lit ''GB\<newline>'',
   Lit ''\<newline>'',
   Lit ''  touch \"/tmp/'', Field ''run_id'', Lit ''/disk_created\"\<newline>'',
   Lit ''\<newline>'',
   Lit ''  echo 'Creating VM instance to run customization script.'\<newline>'',
   Lit ''  gcloud compute instances create '',
     Field ''image_name'',
     Lit ''-install       --project='',
     Field ''project_id'',
     Lit ''       --zone='',
     Field ''zone'',
     Lit ''       '',
     Field ''network_flag'',
     Lit ''       '',
     Field ''subnetwork_flag'',
     Lit ''       '',
     Field ''no_external_ip_flag'',
     Lit ''       --machine-type='',
     Field ''machine_type'',
     Lit ''       --disk=auto-delete=yes,boot=yes,mode=rw,name='',
     Field ''image_name'',
     Lit ''-install       '',
     Field ''accelerator_flag'',
     Lit ''       '',
     Field ''service_account_flag'',
     Lit ''       --scopes=cloud-platform       '',
     Field ''metadata_flag'',
     Lit ''       --metadata-from-file startup-script=startup_script/run.sh\<newline>'',
   Lit ''  touch /tmp/'', Field ''run_id'', Lit ''/vm_created\<newline>'',
   Lit ''\<newline>'',
   Lit ''  echo 'Waiting for customization script to finish and VM shutdown.'\<newline>'',
   Lit ''  gcloud compute instances tail-serial-port-output '',
     Field ''image_name'',
     Lit ''-install       --project='',
     Field ''project_id'',
     Lit ''       --zone='',
     Field ''zone'',
     Lit ''       --port=1 2>&1       | grep 'startup-script'       | tee '',
     Field ''log_dir'',
     Lit ''/startup-script.log       || true\<newline>'',
   Lit ''\<newline>'',
   Lit ''  echo 'Checking customization script result.'\<newline>'',
   Lit ''  if grep 'BuildFailed:' '',
     Field ''log_dir'',
     Lit ''/startup-script.log; then\<newline>'',
   Lit ''    echo -e \"${RED}Customization script failed.${NC}\"\<newline>'',
   Lit ''    exit 1\<newline>'',
   Lit ''  elif grep 'BuildSucceeded:' '',
     Field ''log_dir'',
     Lit ''/startup-script.log; then\<newline>'',
   Lit ''    echo -e \"${GREEN}Customization script succeeded.${NC}\"\<newline>'',
   Lit ''  else\<newline>'',
   Lit ''    echo 'Unable to determine the customization script result.'\<newline>'',
   Lit ''    exit 1\<newline>'',
   Lit ''  fi\<newline>'',
   Lit ''\<newline>'',
   Lit ''  echo 'Creating custom image.'\<newline>'',
   Lit ''  gcloud compute images create '',
     Field ''image_name'',
     Lit ''       --project='',
     Field ''project_id'',
     Lit ''       --source-disk-zone='',
     Field ''zone'',
     Lit ''       --source-disk='',
     Field ''image_name'',
     Lit ''-install       '',
     Field ''storage_location_flag'',
     Lit ''       --family='',
     Field ''family'',
     Lit ''\<newline>'',
   Lit ''  touch /tmp/'', Field ''run_id'', Lit ''/image_created\<newline>'',
   Lit ''}\<newline>'',
   Lit ''\<newline>'',
   Lit ''trap exit_handler EXIT\<newline>'',
   Lit ''mkdir -p '', Field ''log_dir'', Lit ''\<newline>'',
   Lit ''main \"$@\" 2>&1 | tee '', Field ''log_dir'', Lit ''/workflow.log\<newline>''
  ]"

subsection \<open>\<^verbatim>\<open>generate\<close>\<close>

text \<open>
  \<^verbatim>\<open>generate\<close> on the dictionary it is given: the script or the error raised, and the
  dictionary as the call leaves it.
\<close>

definition generate :: "datetime \<Rightarrow> pydict \<Rightarrow> (error + string) \<times> pydict" where
  "generate now d =
     (case init_args now d of
        (Some e, d') \<Rightarrow> (Inl e, d')
      | (None, d') \<Rightarrow> (py_format template d', d'))"






section \<open>Reading a shell array literal\<close>

text \<open>
  How the shell reads the text between the parentheses of
  \<^verbatim>\<open>declare -a sources_k=(...)\<close>: words are separated by unquoted blanks; between
  single quotes every character stands for itself and the next single quote ends the
  quoted part; outside quotes a backslash makes the next character literal. Outside
  quotes only the characters of \<^verbatim>\<open>[i]=\<close> are accepted here: any other unquoted
  character can mean something else to the shell, and the reading is then undefined
  (\<open>None\<close>), as it is when a quote is left open.
\<close>

definition sh_blank :: "char \<Rightarrow> bool" where
  "sh_blank c \<longleftrightarrow> c = CHR '' '' \<or> c = CHR 0x09 \<or> c = CHR 0x0A"

definition is_digit :: "char \<Rightarrow> bool" where
  "is_digit c \<longleftrightarrow> (48::nat) \<le> of_char c \<and> of_char c \<le> (57::nat)"

definition unquoted_ok :: "char \<Rightarrow> bool" where
  "unquoted_ok c \<longleftrightarrow> is_digit c \<or> c = CHR ''['' \<or> c = CHR '']'' \<or> c = CHR ''=''"

definition word_of :: "string option \<Rightarrow> string" where
  "word_of w = (case w of None \<Rightarrow> [] | Some s \<Rightarrow> s)"

definition add_char :: "char \<Rightarrow> string option \<Rightarrow> string option" where
  "add_char c w = Some (word_of w @ [c])"

text \<open>
  \<open>sh_words q w text\<close>: \<open>q\<close> says whether a single quote is open, \<open>w\<close> is the word
  in progress (\<open>None\<close> between two words).
\<close>

fun sh_words :: "bool \<Rightarrow> string option \<Rightarrow> string \<Rightarrow> string list option" where
  "sh_words q w [] = (if q then None else Some (case w of None \<Rightarrow> [] | Some s \<Rightarrow> [s]))"
| "sh_words q w (c # cs) =
     (if q then (if c = SQ then sh_words False w cs else sh_words True (add_char c w) cs)
      else if c = SQ then sh_words True (Some (word_of w)) cs
      else if c = BS then
        (case cs of
           [] \<Rightarrow> None
         | e # es \<Rightarrow> if e = CHR 0x0A then sh_words False w es else sh_words False (add_char e w) es)
      else if sh_blank c then
        (case w of
           None \<Rightarrow> sh_words False None cs
         | Some s \<Rightarrow> map_option ((#) s) (sh_words False None cs))
      else if unquoted_ok c then sh_words False (add_char c w) cs
      else None)"

text \<open>A word \<^verbatim>\<open>[i]=text\<close>, after the quotes are removed: the index and the text.\<close>

definition array_element :: "string \<Rightarrow> (string \<times> string) option" where
  "array_element word =
     (case word of
        [] \<Rightarrow> None
      | c # rest \<Rightarrow>
          if c \<noteq> CHR ''['' then None
          else (case dropWhile is_digit rest of
                  b # e # text \<Rightarrow>
                    if b = CHR '']'' \<and> e = CHR ''='' \<and> takeWhile is_digit rest \<noteq> []
                    then Some (takeWhile is_digit rest, text) else None
                | _ \<Rightarrow> None))"

definition sh_array :: "string \<Rightarrow> (string \<times> string) list option" where
  "sh_array text =
     (case sh_words False None text of
        None \<Rightarrow> None
      | Some ws \<Rightarrow> those (map array_element ws))"

text \<open>One single-quoted word: the string the shell reads from \<^verbatim>\<open>'text'\<close>.\<close>

definition sh_single_quoted :: "string \<Rightarrow> string option" where
  "sh_single_quoted text =
     (case sh_words False None text of Some [s] \<Rightarrow> Some s | _ \<Rightarrow> None)"

section \<open>The generated script\<close>

text \<open>
  The script runs under \<^verbatim>\<open>set -euxo pipefail\<close>: a command that fails outside the
  condition of an \<^verbatim>\<open>if\<close> and outside a \<^verbatim>\<open>||\<close> list ends the shell with the status
  of that command, inside \<^verbatim>\<open>main\<close> and inside the exit handler alike. The external
  commands (\<^verbatim>\<open>gcloud\<close>, \<^verbatim>\<open>gsutil\<close>, \<^verbatim>\<open>touch\<close>, \<^verbatim>\<open>mkdir\<close>) succeed or fail as the
  world decides. The model covers the values of the placeholders that the shell reads
  as they are written: it does not follow quotes or expansions inside them.
\<close>

datatype marker = DiskCreated | VmCreated | ImageCreated

datatype command =
    Echo string
  | MkdirLogDir
  | GsutilCp string string
  | DisksCreate string
  | Touch marker
  | InstancesCreate
  | TailSerialPort
  | ImagesCreate
  | InstancesDelete
  | DisksDelete
  | GsutilRsync string string

record world =
  status :: "command \<Rightarrow> nat"
  serial_output :: "string list"

record shell =
  markers :: "marker set"
  startup_log :: "string list"
  trace :: "command list"

text \<open>A step of the script: \<open>Some n\<close> when the shell exits with status \<open>n\<close>.\<close>

type_synonym step = "shell \<Rightarrow> nat option \<times> shell"

record script_params =
  sp_sources :: "(string \<times> string) list"
  sp_custom_sources_path :: string
  sp_base_image_family :: string
  sp_base_image :: string
  sp_log_dir :: string
  sp_gcs_log_dir :: string

definition echo :: "string \<Rightarrow> step" where
  "echo s st = (None, st\<lparr>trace := trace st @ [Echo s]\<rparr>)"

definition run :: "world \<Rightarrow> command \<Rightarrow> step" where
  "run w c st =
     (if status w c = 0 then None else Some (status w c), st\<lparr>trace := trace st @ [c]\<rparr>)"

definition touch :: "world \<Rightarrow> marker \<Rightarrow> step" where
  "touch w m st =
     (if status w (Touch m) = 0
      then (None, st\<lparr>markers := insert m (markers st), trace := trace st @ [Touch m]\<rparr>)
      else (Some (status w (Touch m)), st\<lparr>trace := trace st @ [Touch m]\<rparr>))"

definition exit_with :: "nat \<Rightarrow> step" where
  "exit_with n st = (Some n, st)"

fun seq :: "step list \<Rightarrow> step" where
  "seq [] st = (None, st)"
| "seq (s # ss) st = (case s st of (Some n, st') \<Rightarrow> (Some n, st') | (None, st') \<Rightarrow> seq ss st')"

text \<open>\<^verbatim>\<open>grep 'pattern' file\<close> with a pattern of plain characters: some line has it.\<close>

definition grep :: "string \<Rightarrow> string list \<Rightarrow> bool" where
  "grep pat ls = list_ex (sublist pat) ls"

text \<open>Lines 57 to 62.\<close>

definition upload_sources :: "script_params \<Rightarrow> world \<Rightarrow> step" where
  "upload_sources p w =
     seq (echo ''Uploading files to GCS bucket.'' #
          map (\<lambda>(k, v). run w (GsutilCp v (sp_custom_sources_path p @ ''/'' @ k))) (sp_sources p))"

text \<open>Lines 65 to 69.\<close>

definition image_source :: "script_params \<Rightarrow> string" where
  "image_source p =
     (if sp_base_image_family p = '''' \<or> sp_base_image_family p = ''None''
      then ''--image='' @ sp_base_image p
      else ''--image-family='' @ sp_base_image_family p)"

text \<open>Lines 64 to 78.\<close>

definition create_disk :: "script_params \<Rightarrow> world \<Rightarrow> step" where
  "create_disk p w =
     seq [echo ''Creating disk.'', run w (DisksCreate (image_source p)), touch w DiskCreated]"

text \<open>Lines 80 to 94.\<close>

definition create_vm :: "world \<Rightarrow> step" where
  "create_vm w =
     seq [echo ''Creating VM instance to run customization script.'',
          run w InstancesCreate, touch w VmCreated]"

text \<open>
  Lines 96 to 103: the lines of the serial port that have \<^verbatim>\<open>startup-script\<close> go to
  the log; \<^verbatim>\<open>|| true\<close> lets the script go on whatever the pipeline returns.
\<close>

definition wait_for_vm :: "world \<Rightarrow> step" where
  "wait_for_vm w =
     seq [echo ''Waiting for customization script to finish and VM shutdown.'',
          (\<lambda>st. (None, st\<lparr>startup_log := filter (sublist ''startup-script'') (serial_output w),
                             trace := trace st @ [TailSerialPort]\<rparr>))]"

text \<open>Lines 105 to 114. The colour codes of the messages are left out.\<close>

definition check_result :: step where
  "check_result =
     seq [echo ''Checking customization script result.'',
          (\<lambda>st. if grep ''BuildFailed:'' (startup_log st)
                then seq [echo ''Customization script failed.'', exit_with 1] st
                else if grep ''BuildSucceeded:'' (startup_log st)
                then echo ''Customization script succeeded.'' st
                else seq [echo ''Unable to determine the customization script result.'',
                          exit_with 1] st)]"

text \<open>Lines 116 to 123.\<close>

definition create_image :: "world \<Rightarrow> step" where
  "create_image w =
     seq [echo ''Creating custom image.'', run w ImagesCreate, touch w ImageCreated]"

definition main :: "script_params \<Rightarrow> world \<Rightarrow> step" where
  "main p w =
     seq [upload_sources p w, create_disk p w, create_vm w, wait_for_vm w,
          check_result, create_image w]"

text \<open>Lines 32 to 54.\<close>

definition exit_handler :: "script_params \<Rightarrow> world \<Rightarrow> step" where
  "exit_handler p w =
     seq [echo ''Cleaning up before exiting.'',
          (\<lambda>st. if VmCreated \<in> markers st
                then seq [echo ''Deleting VM instance.'', run w InstancesDelete] st
                else if DiskCreated \<in> markers st
                then seq [echo ''Deleting disk.'', run w DisksDelete] st
                else (None, st)),
          echo ''Uploading local logs to GCS bucket.'',
          run w (GsutilRsync (sp_log_dir p @ ''/'') (sp_gcs_log_dir p @ ''/'')),
          (\<lambda>st. if ImageCreated \<in> markers st
                then seq [echo (''Workflow succeeded, check logs at '' @ sp_log_dir p @ ''/ or ''
                                @ sp_gcs_log_dir p @ ''/''), exit_with 0] st
                else seq [echo (''Workflow failed, check logs at '' @ sp_log_dir p @ ''/ or ''
                                @ sp_gcs_log_dir p @ ''/''), exit_with 1] st)]"

text \<open>
  Lines 126 to 128. The trap is set first, so the handler runs when the shell exits,
  wherever \<^verbatim>\<open>mkdir\<close> or \<^verbatim>\<open>main\<close> stopped; \<^verbatim>\<open>main\<close> runs in a subshell of the
  pipeline into \<^verbatim>\<open>tee\<close>, its marker files are in the file system and stay. The
  result is the exit status of the script and the final state.
\<close>

definition script :: "script_params \<Rightarrow> world \<Rightarrow> shell \<Rightarrow> nat \<times> shell" where
  "script p w st =
     (case seq [run w MkdirLogDir, main p w] st of
        (r, st1) \<Rightarrow>
          (case exit_handler p w st1 of
             (Some n, st2) \<Rightarrow> (n, st2)
           | (None, st2) \<Rightarrow> (case r of Some n \<Rightarrow> n | None \<Rightarrow> 0, st2)))"

text \<open>The values the generator puts into the script, read from the resolved dictionary.\<close>

definition field_text :: "pydict \<Rightarrow> string \<Rightarrow> string" where
  "field_text d k = (case d k of Some v \<Rightarrow> py_str v | None \<Rightarrow> [])"

definition script_params_of :: "pydict \<Rightarrow> script_params" where
  "script_params_of d =
     \<lparr>sp_sources =
        (case (sh_array (field_text d ''sources_map_k''), sh_array (field_text d ''sources_map_v'')) of
           (Some ks, Some vs) \<Rightarrow> zip (map snd ks) (map snd vs)
         | _ \<Rightarrow> []),
      sp_custom_sources_path = field_text d ''custom_sources_path'',
      sp_base_image_family = field_text d ''base_image_family'',
      sp_base_image = field_text d ''base_image'',
      sp_log_dir = field_text d ''log_dir'',
      sp_gcs_log_dir = field_text d ''gcs_log_dir''\<rparr>"

definition fresh :: shell where
  "fresh = \<lparr>markers = {}, startup_log = [], trace = []\<rparr>"

section \<open>Well-formed options\<close>

text \<open>
  The options are typed: the bucket and the customization script are strings and the
  extra sources are a dictionary, wherever they are given; \<^verbatim>\<open>timestamp\<close> is not an
  option.
\<close>

definition is_str :: "pyval \<Rightarrow> bool" where
  "is_str v = (case v of PStr s \<Rightarrow> True | _ \<Rightarrow> False)"

definition is_dict :: "pyval \<Rightarrow> bool" where
  "is_dict v = (case v of PDict kvs \<Rightarrow> True | _ \<Rightarrow> False)"

definition well_typed :: "pydict \<Rightarrow> bool" where
  "well_typed d \<longleftrightarrow>
     d ''timestamp'' = None \<and>
     (case d ''gcs_bucket'' of None \<Rightarrow> True | Some v \<Rightarrow> is_str v) \<and>
     (case d ''customization_script'' of None \<Rightarrow> True | Some v \<Rightarrow> is_str v) \<and>
     (case d ''extra_sources'' of None \<Rightarrow> True | Some v \<Rightarrow> is_dict v)"

text \<open>
  The options that every run reads: the placeholders of the template that
  \<^verbatim>\<open>_init_args\<close> does not assign, and the keys it subscripts on every path.
\<close>

definition required_fields :: "string list" where
  "required_fields =
     [''image_name'', ''project_id'', ''zone'', ''base_image_family'', ''base_image'',
      ''disk_size'', ''machine_type'', ''family'',
      ''gcs_bucket'', ''customization_script'', ''extra_sources'', ''subnetwork'',
      ''service_account'', ''no_external_ip'', ''accelerator'', ''storage_location'',
      ''metadata'', ''shutdown_timer_in_sec'']"

text \<open>
  Every option key the code reads: the required fields, and \<^verbatim>\<open>network\<close>, which line 160
  reads only when \<^verbatim>\<open>subnetwork\<close> is false.
\<close>

definition option_fields :: "string list" where
  "option_fields = required_fields @ [''network'']"

text \<open>An option is set when its key is present with a true value (lines 157, 160, 163).\<close>

definition option_set :: "pydict \<Rightarrow> string \<Rightarrow> bool" where
  "option_set d k = (case d k of None \<Rightarrow> False | Some v \<Rightarrow> truthy v)"

text \<open>
  The three flags that are assigned only inside a branch (lines 158 to 166), the options
  for which a branch of each \<^verbatim>\<open>if\<close> is taken, and the derived keys that are assigned
  on every path.
\<close>

definition branch_flags :: "string list" where
  "branch_flags = [''network_flag'', ''subnetwork_flag'', ''service_account_flag'']"

definition flag_options_set :: "pydict \<Rightarrow> bool" where
  "flag_options_set d \<longleftrightarrow>
     (option_set d ''subnetwork'' \<or> option_set d ''network'') \<and>
     option_set d ''service_account''"


definition succeeds :: "error + 'a \<Rightarrow> bool" where
  "succeeds r = (case r of Inl e \<Rightarrow> False | Inr x \<Rightarrow> True)"

text \<open>
  Following the words of the specification, for comparison with line 139: the bucket
  with its \<^verbatim>\<open>gs://\<close> scheme prefix stripped.
\<close>

definition strip_scheme_prefix :: "string \<Rightarrow> string" where
  "strip_scheme_prefix s = (if prefix ''gs://'' s then drop 5 s else s)"

section \<open>Keys and fields\<close>

text \<open>The keys that \<^verbatim>\<open>_init_args\<close> assigns, besides \<^verbatim>\<open>run_id\<close>.\<close>

definition derived_keys :: "string list" where
  "derived_keys =
     [''bucket_name'', ''custom_sources_path'', ''sources_map_k'', ''sources_map_v'',
      ''log_dir'', ''gcs_log_dir'', ''subnetwork_flag'', ''network_flag'',
      ''service_account_flag'', ''no_external_ip_flag'', ''accelerator_flag'',
      ''storage_location_flag'', ''metadata_flag'']"

text \<open>The placeholders of a format string.\<close>

fun fields :: "piece list \<Rightarrow> string list" where
  "fields [] = []"
| "fields (Lit s # ps) = fields ps"
| "fields (Field k # ps) = k # fields ps"

section \<open>Example inputs\<close>

text \<open>
  The options of the end-to-end scenario, with every option key present: no extra
  sources, no network, subnetwork, accelerator, service account or storage location.
\<close>

definition demo_options :: pydict where
  "demo_options =
     [''image_name'' \<mapsto> PStr ''demo'', ''project_id'' \<mapsto> PStr ''p'', ''zone'' \<mapsto> PStr ''z'',
      ''gcs_bucket'' \<mapsto> PStr ''gs://b'', ''family'' \<mapsto> PStr ''custom'',
      ''base_image'' \<mapsto> PStr '''', ''base_image_family'' \<mapsto> PStr ''debian-11'',
      ''customization_script'' \<mapsto> PStr ''/local/init.sh'', ''extra_sources'' \<mapsto> PDict [],
      ''machine_type'' \<mapsto> PStr ''n1-standard-1'', ''disk_size'' \<mapsto> PInt 15,
      ''shutdown_timer_in_sec'' \<mapsto> PInt 300, ''metadata'' \<mapsto> PStr '''',
      ''no_external_ip'' \<mapsto> PBool False,
      ''network'' \<mapsto> PStr '''', ''subnetwork'' \<mapsto> PStr '''', ''service_account'' \<mapsto> PNone,
      ''accelerator'' \<mapsto> PNone, ''storage_location'' \<mapsto> PNone]"

definition demo_clock :: datetime where
  "demo_clock = \<lparr>year = 2026, month = 11, day = 4, hour = 9, minute = 5, second = 0\<rparr>"

definition later_clock :: datetime where
  "later_clock = \<lparr>year = 2027, month = 1, day = 31, hour = 23, minute = 59, second = 58\<rparr>"

text \<open>The same options with a network and a service account, and with one extra source.\<close>

definition full_options :: pydict where
  "full_options =
     demo_options(''network'' \<mapsto> PStr ''default'',
                  ''service_account'' \<mapsto> PStr ''builder@p.iam.gserviceaccount.com'',
                  ''extra_sources'' \<mapsto> PDict [(''a.sh'', ''gs://x/a.sh'')])"




text \<open>Options whose bucket has \<^verbatim>\<open>gs://\<close> twice.\<close>

definition nested_bucket_options :: pydict where
  "nested_bucket_options = full_options(''gcs_bucket'' \<mapsto> PStr ''gs://gs://b'')"



text \<open>Options with a network, a service account and a run identifier of the caller's.\<close>

definition run_id_options :: pydict where
  "run_id_options = full_options(''run_id'' \<mapsto> PStr ''run-1'')"

section \<open>Basic facts\<close>

lemma and_then_Inr_iff: "and_then m f = Inr y \<longleftrightarrow> (\<exists>x. m = Inr x \<and> f x = Inr y)"
  by (cases m) (simp_all add: and_then_def)

lemma and_then_Inl_iff:
  "and_then m f = Inl e \<longleftrightarrow> m = Inl e \<or> (\<exists>x. m = Inr x \<and> f x = Inl e)"
  by (cases m) (simp_all add: and_then_def)

lemma getitem_Inr_iff: "getitem d k = Inr v \<longleftrightarrow> d k = Some v"
  by (simp add: getitem_def split: option.splits)

lemma getitem_Inl_iff: "getitem d k = Inl e \<longleftrightarrow> d k = None \<and> e = KeyError k"
  by (auto simp: getitem_def split: option.splits)

lemma exec_append:
  "exec (ss @ ts) d =
     (case exec ss d of (Some e, d') \<Rightarrow> (Some e, d') | (None, d') \<Rightarrow> exec ts d')"
  by (induction ss arbitrary: d) (auto split: sum.splits)

lemma exec_preserves:
  assumes "\<And>s d d'. s \<in> set ss \<Longrightarrow> s d = Inr d' \<Longrightarrow> d' k = d k"
    and "exec ss d = (e, d')"
  shows "d' k = d k"
  using assms
proof (induction ss arbitrary: d)
  case Nil
  then show ?case by simp
next
  case (Cons s ss)
  show ?case
  proof (cases "s d")
    case (Inl err)
    with Cons.prems(2) show ?thesis by simp
  next
    case (Inr d1)
    with Cons.prems(2) have run: "exec ss d1 = (e, d')" by simp
    have "d' k = d1 k"
    proof (rule Cons.IH)
      show "exec ss d1 = (e, d')" by (rule run)
    next
      fix s' da db
      assume "s' \<in> set ss" and "s' da = Inr db"
      then show "db k = da k" using Cons.prems(1) [of s' da db] by simp
    qed
    moreover from Inr have "d1 k = d k" using Cons.prems(1) [of s d d1] by simp
    ultimately show ?thesis by simp
  qed
qed

subsection \<open>What each statement leaves alone\<close>

lemma set_run_id_other: "set_run_id now d = Inr d' \<Longrightarrow> k \<noteq> ''run_id'' \<Longrightarrow> d' k = d k"
  by (auto simp: set_run_id_def and_then_Inr_iff split: if_splits)

lemma set_run_id_present: "d ''run_id'' = Some v \<Longrightarrow> set_run_id now d = Inr d"
  by (simp add: set_run_id_def)

lemma set_bucket_name_Inr:
  "set_bucket_name d = Inr d' \<longleftrightarrow>
     (\<exists>s. d ''gcs_bucket'' = Some (PStr s) \<and>
          d' = d(''bucket_name'' \<mapsto> PStr (py_replace ''gs://'' [] s)))"
proof (cases "d ''gcs_bucket''")
  case None
  then show ?thesis by (simp add: set_bucket_name_def and_then_def getitem_def)
next
  case (Some v)
  then show ?thesis
    by (cases v) (auto simp: set_bucket_name_def and_then_def getitem_def)
qed

lemma set_bucket_name_other:
  "set_bucket_name d = Inr d' \<Longrightarrow> k \<noteq> ''bucket_name'' \<Longrightarrow> d' k = d k"
  by (auto simp: set_bucket_name_Inr)

lemma set_custom_sources_path_other:
  "set_custom_sources_path d = Inr d' \<Longrightarrow> k \<noteq> ''custom_sources_path'' \<Longrightarrow> d' k = d k"
  by (auto simp: set_custom_sources_path_def and_then_Inr_iff)

lemma set_sources_map_k_other:
  "set_sources_map_k d = Inr d' \<Longrightarrow> k \<noteq> ''sources_map_k'' \<Longrightarrow> d' k = d k"
  by (auto simp: set_sources_map_k_def and_then_Inr_iff)

lemma set_sources_map_v_other:
  "set_sources_map_v d = Inr d' \<Longrightarrow> k \<noteq> ''sources_map_v'' \<Longrightarrow> d' k = d k"
  by (auto simp: set_sources_map_v_def and_then_Inr_iff)

lemma set_log_dir_other: "set_log_dir d = Inr d' \<Longrightarrow> k \<noteq> ''log_dir'' \<Longrightarrow> d' k = d k"
  by (auto simp: set_log_dir_def and_then_Inr_iff)

lemma set_gcs_log_dir_other:
  "set_gcs_log_dir d = Inr d' \<Longrightarrow> k \<noteq> ''gcs_log_dir'' \<Longrightarrow> d' k = d k"
  by (auto simp: set_gcs_log_dir_def and_then_Inr_iff)

lemma set_network_flags_other:
  "set_network_flags d = Inr d' \<Longrightarrow> k \<noteq> ''network_flag'' \<Longrightarrow> k \<noteq> ''subnetwork_flag'' \<Longrightarrow>
   d' k = d k"
  by (auto simp: set_network_flags_def and_then_Inr_iff split: if_splits)

lemma set_service_account_flag_other:
  "set_service_account_flag d = Inr d' \<Longrightarrow> k \<noteq> ''service_account_flag'' \<Longrightarrow> d' k = d k"
  by (auto simp: set_service_account_flag_def and_then_Inr_iff split: if_splits)

lemma set_no_external_ip_flag_other:
  "set_no_external_ip_flag d = Inr d' \<Longrightarrow> k \<noteq> ''no_external_ip_flag'' \<Longrightarrow> d' k = d k"
  by (auto simp: set_no_external_ip_flag_def and_then_Inr_iff)

lemma set_accelerator_flag_other:
  "set_accelerator_flag d = Inr d' \<Longrightarrow> k \<noteq> ''accelerator_flag'' \<Longrightarrow> d' k = d k"
  by (auto simp: set_accelerator_flag_def and_then_Inr_iff split: if_splits)

lemma set_storage_location_flag_other:
  "set_storage_location_flag d = Inr d' \<Longrightarrow> k \<noteq> ''storage_location_flag'' \<Longrightarrow> d' k = d k"
  by (auto simp: set_storage_location_flag_def and_then_Inr_iff split: if_splits)

lemma set_metadata_flag_other:
  "set_metadata_flag d = Inr d' \<Longrightarrow> k \<noteq> ''metadata_flag'' \<Longrightarrow> d' k = d k"
  by (auto simp: set_metadata_flag_def and_then_Inr_iff)

lemmas stmt_other =
  set_run_id_other set_bucket_name_other set_custom_sources_path_other
  set_sources_map_k_other set_sources_map_v_other set_log_dir_other set_gcs_log_dir_other
  set_network_flags_other set_service_account_flag_other set_no_external_ip_flag_other
  set_accelerator_flag_other set_storage_location_flag_other set_metadata_flag_other

lemma init_args_frame:
  assumes "init_args now d = (e, d')" and "k \<notin> set derived_keys" and "k \<noteq> ''run_id''"
  shows "d' k = d k"
proof (rule exec_preserves [where ss = "init_args_stmts now" and e = e])
  show "exec (init_args_stmts now) d = (e, d')"
    using assms(1) by (simp add: init_args_def)
next
  fix s d1 d2
  assume "s \<in> set (init_args_stmts now)" and "s d1 = Inr d2"
  with assms(2,3) show "d2 k = d1 k"
    unfolding init_args_stmts_def derived_keys_def
    by (auto dest: stmt_other)
qed

lemma init_args_explicit_run_id:
  "d ''run_id'' \<noteq> None \<Longrightarrow> init_args now1 d = init_args now2 d"
  by (auto simp: init_args_def init_args_stmts_def set_run_id_def)

subsection \<open>A run of \<^verbatim>\<open>_init_args\<close> that raises nothing\<close>

lemma exec_Cons_None:
  "exec (s # ss) d = (None, d') \<longleftrightarrow> (\<exists>d1. s d = Inr d1 \<and> exec ss d1 = (None, d'))"
  by (cases "s d") simp_all

lemma exec_split:
  assumes "exec (pre @ s # post) d = (None, d')"
  obtains da db where "exec pre d = (None, da)" and "s da = Inr db"
    and "exec post db = (None, d')"
proof -
  obtain e da where pre: "exec pre d = (e, da)" by (cases "exec pre d")
  with assms have "e = None" and rest: "exec (s # post) da = (None, d')"
    by (cases e; simp add: exec_append)+
  from rest obtain db where "s da = Inr db" and "exec post db = (None, d')"
    by (cases "s da") auto
  with pre \<open>e = None\<close> that show thesis by simp
qed

lemma stmts_frame:
  assumes "set ss \<subseteq> set (init_args_stmts now)" and "exec ss d = (e, d')"
    and "k \<notin> set derived_keys" and "k \<noteq> ''run_id''"
  shows "d' k = d k"
proof (rule exec_preserves [where ss = ss and e = e])
  show "exec ss d = (e, d')" by (rule assms(2))
next
  fix s d1 d2
  assume "s \<in> set ss" and step: "s d1 = Inr d2"
  with assms(1) have "s \<in> set (init_args_stmts now)" by auto
  with step assms(3,4) show "d2 k = d1 k"
    unfolding init_args_stmts_def derived_keys_def
    by (auto dest: stmt_other)
qed

lemma py_format_lit_field:
  "py_format [Lit a, Field k] d = Inr s \<longleftrightarrow> (\<exists>v. d k = Some v \<and> s = a @ py_str v)"
  by (auto simp: and_then_def getitem_def split: option.splits)

lemma py_format_path:
  "py_format [Lit a, Field j, Lit b, Field k, Lit c] d = Inr s \<longleftrightarrow>
     (\<exists>u v. d j = Some u \<and> d k = Some v \<and> s = a @ py_str u @ b @ py_str v @ c)"
  by (auto simp: and_then_def getitem_def split: option.splits)

lemma py_format_fields_present:
  "py_format ps d = Inr s \<Longrightarrow> k \<in> set (fields ps) \<Longrightarrow> d k \<noteq> None"
proof (induction ps arbitrary: s)
  case Nil
  then show ?case by simp
next
  case (Cons p ps)
  then show ?case
    by (cases p) (auto simp: and_then_Inr_iff getitem_Inr_iff)
qed

lemma py_format_Inl:
  "py_format ps d = Inl e \<Longrightarrow> \<exists>k. e = KeyError k \<and> d k = None \<and> k \<in> set (fields ps)"
proof (induction ps)
  case Nil
  then show ?case by simp
next
  case (Cons p ps)
  then show ?case
    by (cases p) (auto simp: and_then_Inl_iff getitem_Inl_iff)
qed

lemma py_format_cong:
  "(\<And>k. k \<in> set (fields ps) \<Longrightarrow> d1 k = d2 k) \<Longrightarrow> py_format ps d1 = py_format ps d2"
proof (induction ps)
  case Nil
  then show ?case by simp
next
  case (Cons p ps)
  then show ?case
    by (cases p) (simp_all add: getitem_def)
qed

lemma set_network_flags_subnetwork:
  assumes "set_network_flags d = Inr d'" and "d ''subnetwork'' = Some v" and "truthy v"
  shows "d' ''subnetwork_flag'' = Some (PStr (''--subnet='' @ py_str v)) \<and>
         d' ''network_flag'' = Some (PStr '''')"
  using assms
  by (auto simp: set_network_flags_def and_then_def getitem_def split: option.splits)

lemma init_args_stmts_network:
  "init_args_stmts now =
     [set_run_id now, set_bucket_name, set_custom_sources_path, set_sources_map_k,
      set_sources_map_v, set_log_dir, set_gcs_log_dir] @ set_network_flags #
     [set_service_account_flag, set_no_external_ip_flag, set_accelerator_flag,
      set_storage_location_flag, set_metadata_flag]"
  by (simp add: init_args_stmts_def)

lemma init_args_subnetwork_wins:
  assumes ok: "init_args now d = (None, d')"
    and sub: "d ''subnetwork'' = Some v" and tr: "truthy v"
  shows "d' ''subnetwork_flag'' = Some (PStr (''--subnet='' @ py_str v)) \<and>
         d' ''network_flag'' = Some (PStr '''')"
proof -
  let ?pre = "[set_run_id now, set_bucket_name, set_custom_sources_path, set_sources_map_k,
      set_sources_map_v, set_log_dir, set_gcs_log_dir]"
  let ?post = "[set_service_account_flag, set_no_external_ip_flag, set_accelerator_flag,
      set_storage_location_flag, set_metadata_flag]"
  from ok have "exec (?pre @ set_network_flags # ?post) d = (None, d')"
    by (simp add: init_args_def init_args_stmts_def)
  then obtain da db where pre: "exec ?pre d = (None, da)"
    and step: "set_network_flags da = Inr db" and post: "exec ?post db = (None, d')"
    by (rule exec_split)
  have "da ''subnetwork'' = d ''subnetwork''"
    by (rule stmts_frame [OF _ pre, where now = now])
       (simp_all add: init_args_stmts_def derived_keys_def)
  with sub have "da ''subnetwork'' = Some v" by simp
  from set_network_flags_subnetwork [OF step this tr]
  have db: "db ''subnetwork_flag'' = Some (PStr (''--subnet='' @ py_str v))"
    "db ''network_flag'' = Some (PStr '''')" by simp_all
  have "d' ''subnetwork_flag'' = db ''subnetwork_flag''"
    by (rule exec_preserves [OF _ post]) (auto intro: stmt_other)
  moreover have "d' ''network_flag'' = db ''network_flag''"
    by (rule exec_preserves [OF _ post]) (auto intro: stmt_other)
  ultimately show ?thesis using db by simp
qed

subsection \<open>When a statement succeeds\<close>


lemma py_format_2:
  "py_format [Lit a, Field k] d =
     (case d k of None \<Rightarrow> Inl (KeyError k) | Some v \<Rightarrow> Inr (a @ py_str v))"
  by (simp add: and_then_def getitem_def split: option.splits)

lemma py_format_3:
  "py_format [Lit a, Field k, Lit b] d =
     (case d k of None \<Rightarrow> Inl (KeyError k) | Some v \<Rightarrow> Inr (a @ py_str v @ b))"
  by (simp add: and_then_def getitem_def split: option.splits)

lemma py_format_4:
  "py_format [Lit a, Field j, Lit b, Field k] d =
     (case d j of None \<Rightarrow> Inl (KeyError j)
      | Some u \<Rightarrow> (case d k of None \<Rightarrow> Inl (KeyError k)
                   | Some v \<Rightarrow> Inr (a @ py_str u @ b @ py_str v)))"
  by (simp add: and_then_def getitem_def split: option.splits)

lemma py_format_5:
  "py_format [Lit a, Field j, Lit b, Field k, Lit c] d =
     (case d j of None \<Rightarrow> Inl (KeyError j)
      | Some u \<Rightarrow> (case d k of None \<Rightarrow> Inl (KeyError k)
                   | Some v \<Rightarrow> Inr (a @ py_str u @ b @ py_str v @ c)))"
  by (simp add: and_then_def getitem_def split: option.splits)

lemma py_format_6:
  "py_format [Lit a, Field j, Lit b, Field k, Lit c, Field l] d =
     (case d j of None \<Rightarrow> Inl (KeyError j)
      | Some u \<Rightarrow> (case d k of None \<Rightarrow> Inl (KeyError k)
                   | Some v \<Rightarrow> (case d l of None \<Rightarrow> Inl (KeyError l)
                                | Some w \<Rightarrow> Inr (a @ py_str u @ b @ py_str v @ c @ py_str w))))"
  by (simp add: and_then_def getitem_def split: option.splits)

lemma set_run_id_Inr:
  "set_run_id now d = Inr d' \<longleftrightarrow>
     (d ''run_id'' \<noteq> None \<and> d' = d) \<or>
     (d ''run_id'' = None \<and> d ''timestamp'' = None \<and>
      (\<exists>v. d ''image_name'' = Some v \<and>
           d' = d(''run_id'' \<mapsto> PStr (''custom-image-'' @ py_str v @ ''-'' @ strftime now))))"
proof (cases "d ''run_id''")
  case (Some r)
  then show ?thesis by (auto simp: set_run_id_def)
next
  case None
  show ?thesis
  proof (cases "d ''timestamp''")
    case (Some t)
    with None show ?thesis by (simp add: set_run_id_def)
  next
    case ts: None
    show ?thesis
    proof (cases "d ''image_name''")
      case None
      with \<open>d ''run_id'' = None\<close> ts show ?thesis
        unfolding set_run_id_def run_id_format_def py_format_4
        by (simp add: and_then_def)
    next
      case (Some v)
      with \<open>d ''run_id'' = None\<close> ts show ?thesis
        unfolding set_run_id_def run_id_format_def py_format_4
        by (auto simp: and_then_def)
    qed
  qed
qed

lemma set_custom_sources_path_Inr:
  "set_custom_sources_path d = Inr d' \<longleftrightarrow>
     (\<exists>u v. d ''bucket_name'' = Some u \<and> d ''run_id'' = Some v \<and>
        d' = d(''custom_sources_path'' \<mapsto>
                 PStr (''gs://'' @ py_str u @ ''/'' @ py_str v @ ''/sources'')))"
  unfolding set_custom_sources_path_def py_format_5
  by (cases "d ''bucket_name''"; cases "d ''run_id''") (auto simp: and_then_def)

lemma set_log_dir_Inr:
  "set_log_dir d = Inr d' \<longleftrightarrow>
     (\<exists>v. d ''run_id'' = Some v \<and>
        d' = d(''log_dir'' \<mapsto> PStr (''/tmp/'' @ py_str v @ ''/logs'')))"
  unfolding set_log_dir_def py_format_3
  by (cases "d ''run_id''") (auto simp: and_then_def)

lemma set_gcs_log_dir_Inr:
  "set_gcs_log_dir d = Inr d' \<longleftrightarrow>
     (\<exists>u v. d ''bucket_name'' = Some u \<and> d ''run_id'' = Some v \<and>
        d' = d(''gcs_log_dir'' \<mapsto> PStr (''gs://'' @ py_str u @ ''/'' @ py_str v @ ''/logs'')))"
  unfolding set_gcs_log_dir_def py_format_5
  by (cases "d ''bucket_name''"; cases "d ''run_id''") (auto simp: and_then_def)


lemma set_sources_map_k_Inr:
  "set_sources_map_k d = Inr d' \<longleftrightarrow>
     (\<exists>items. all_sources d = Inr items \<and>
        d' = d(''sources_map_k'' \<mapsto>
                 PStr (py_join '' '' (key_entries (enumerate_list items)))))"
  unfolding set_sources_map_k_def and_then_Inr_iff by auto

lemma set_sources_map_v_Inr:
  "set_sources_map_v d = Inr d' \<longleftrightarrow>
     (\<exists>items es. all_sources d = Inr items \<and>
        value_entries (enumerate_list items) = Inr es \<and>
        d' = d(''sources_map_v'' \<mapsto> PStr (py_join '' '' es)))"
  unfolding set_sources_map_v_def and_then_Inr_iff by auto

lemma set_no_external_ip_flag_Inr:
  "set_no_external_ip_flag d = Inr d' \<longleftrightarrow>
     (\<exists>b. d ''no_external_ip'' = Some b \<and>
        d' = d(''no_external_ip_flag'' \<mapsto> PStr (if truthy b then ''--no-address'' else '''')))"
proof (cases "d ''no_external_ip''")
  case None
  then show ?thesis by (simp add: set_no_external_ip_flag_def and_then_def getitem_def)
next
  case (Some b)
  then show ?thesis
    unfolding set_no_external_ip_flag_def
    by (cases "truthy b") (auto simp: and_then_def getitem_def)
qed

lemma set_accelerator_flag_Inr:
  "set_accelerator_flag d = Inr d' \<longleftrightarrow>
     (\<exists>a. d ''accelerator'' = Some a \<and>
        d' = d(''accelerator_flag'' \<mapsto>
                 PStr (if truthy a
                       then ''--accelerator='' @ py_str a @ '' --maintenance-policy terminate''
                       else '''')))"
proof (cases "d ''accelerator''")
  case None
  then show ?thesis by (simp add: set_accelerator_flag_def and_then_def getitem_def)
next
  case (Some a)
  then show ?thesis
    unfolding set_accelerator_flag_def py_format_3
    by (cases "truthy a") (auto simp: and_then_def getitem_def)
qed

lemma set_storage_location_flag_Inr:
  "set_storage_location_flag d = Inr d' \<longleftrightarrow>
     (\<exists>l. d ''storage_location'' = Some l \<and>
        d' = d(''storage_location_flag'' \<mapsto>
                 PStr (if truthy l then ''--storage-location='' @ py_str l else '''')))"
proof (cases "d ''storage_location''")
  case None
  then show ?thesis by (simp add: set_storage_location_flag_def and_then_def getitem_def)
next
  case (Some l)
  then show ?thesis
    unfolding set_storage_location_flag_def py_format_2
    by (cases "truthy l") (auto simp: and_then_def getitem_def)
qed

lemma set_service_account_flag_Inr:
  "set_service_account_flag d = Inr d' \<longleftrightarrow>
     (\<exists>a. d ''service_account'' = Some a \<and>
        d' = (if truthy a
              then d(''service_account_flag'' \<mapsto> PStr (''--service-account='' @ py_str a))
              else d))"
proof (cases "d ''service_account''")
  case None
  then show ?thesis by (simp add: set_service_account_flag_def and_then_def getitem_def)
next
  case (Some a)
  then show ?thesis
    unfolding set_service_account_flag_def py_format_2
    by (cases "truthy a") (auto simp: and_then_def getitem_def)
qed

lemma set_network_flags_Inr:
  "set_network_flags d = Inr d' \<longleftrightarrow>
     (\<exists>sub. d ''subnetwork'' = Some sub \<and>
        (if truthy sub
         then d' = d(''subnetwork_flag'' \<mapsto> PStr (''--subnet='' @ py_str sub),
                     ''network_flag'' \<mapsto> PStr '''')
         else (\<exists>net. d ''network'' = Some net \<and>
                 d' = (if truthy net
                       then d(''network_flag'' \<mapsto> PStr (''--network='' @ py_str net),
                              ''subnetwork_flag'' \<mapsto> PStr '''')
                       else d))))"
proof (cases "d ''subnetwork''")
  case None
  then show ?thesis by (simp add: set_network_flags_def and_then_def getitem_def)
next
  case sub: (Some sub)
  show ?thesis
  proof (cases "truthy sub")
    case True
    with sub show ?thesis
      unfolding set_network_flags_def py_format_2
      by (auto simp: and_then_def getitem_def)
  next
    case False
    show ?thesis
    proof (cases "d ''network''")
      case None
      with sub False show ?thesis
        by (simp add: set_network_flags_def and_then_def getitem_def)
    next
      case (Some net)
      with sub False show ?thesis
        unfolding set_network_flags_def py_format_2
        by (cases "truthy net") (auto simp: and_then_def getitem_def)
    qed
  qed
qed

lemma set_metadata_flag_Inr:
  assumes "set_metadata_flag d = Inr d'"
  shows "d ''metadata'' \<noteq> None \<and> d ''shutdown_timer_in_sec'' \<noteq> None \<and>
     d ''custom_sources_path'' \<noteq> None \<and> d' ''metadata_flag'' \<noteq> None"
proof -
  from assms obtain m s where m: "d ''metadata'' = Some m"
    and fmt: "py_format (if truthy m then metadata_flag_template @ [Lit '','', Field ''metadata'']
              else metadata_flag_template) d = Inr s"
    and d': "d' = d(''metadata_flag'' \<mapsto> PStr s)"
    unfolding set_metadata_flag_def by (auto simp: and_then_Inr_iff getitem_Inr_iff)
  have "''shutdown_timer_in_sec'' \<in> set (fields (if truthy m
          then metadata_flag_template @ [Lit '','', Field ''metadata'']
          else metadata_flag_template))"
    and "''custom_sources_path'' \<in> set (fields (if truthy m
          then metadata_flag_template @ [Lit '','', Field ''metadata'']
          else metadata_flag_template))"
    by (simp_all add: metadata_flag_template_def)
  with fmt have "d ''shutdown_timer_in_sec'' \<noteq> None" and "d ''custom_sources_path'' \<noteq> None"
    by (blast dest: py_format_fields_present)+
  with m d' show ?thesis by simp
qed

subsection \<open>Statements only add keys\<close>

lemma stmt_keeps:
  assumes "s \<in> set (init_args_stmts now)" and "s d = Inr d'" and "d k \<noteq> None"
  shows "d' k \<noteq> None"
proof -
  from assms(1) consider
      "s = set_run_id now" | "s = set_bucket_name" | "s = set_custom_sources_path"
    | "s = set_sources_map_k" | "s = set_sources_map_v" | "s = set_log_dir"
    | "s = set_gcs_log_dir" | "s = set_network_flags" | "s = set_service_account_flag"
    | "s = set_no_external_ip_flag" | "s = set_accelerator_flag"
    | "s = set_storage_location_flag" | "s = set_metadata_flag"
    by (auto simp: init_args_stmts_def)
  then show ?thesis
  proof cases
    case 1
    with assms(2,3) show ?thesis by (auto simp: set_run_id_Inr)
  next
    case 2
    with assms(2,3) show ?thesis by (auto simp: set_bucket_name_Inr)
  next
    case 3
    with assms(2,3) show ?thesis by (auto simp: set_custom_sources_path_Inr)
  next
    case 4
    with assms(2,3) show ?thesis by (auto simp: set_sources_map_k_Inr)
  next
    case 5
    with assms(2,3) show ?thesis by (auto simp: set_sources_map_v_Inr)
  next
    case 6
    with assms(2,3) show ?thesis by (auto simp: set_log_dir_Inr)
  next
    case 7
    with assms(2,3) show ?thesis by (auto simp: set_gcs_log_dir_Inr)
  next
    case 8
    with assms(2,3) show ?thesis by (auto simp: set_network_flags_Inr split: if_splits)
  next
    case 9
    with assms(2,3) show ?thesis
      by (auto simp: set_service_account_flag_Inr split: if_splits)
  next
    case 10
    with assms(2,3) show ?thesis by (auto simp: set_no_external_ip_flag_Inr)
  next
    case 11
    with assms(2,3) show ?thesis by (auto simp: set_accelerator_flag_Inr)
  next
    case 12
    with assms(2,3) show ?thesis by (auto simp: set_storage_location_flag_Inr)
  next
    case 13
    with assms(2,3) show ?thesis
      by (cases "k = ''metadata_flag''")
         (auto dest: set_metadata_flag_Inr set_metadata_flag_other)
  qed
qed

lemma exec_keeps:
  assumes "set ss \<subseteq> set (init_args_stmts now)" and "exec ss d = (e, d')" and "d k \<noteq> None"
  shows "d' k \<noteq> None"
  using assms
proof (induction ss arbitrary: d)
  case Nil
  then show ?case by simp
next
  case (Cons s ss)
  show ?case
  proof (cases "s d")
    case (Inl err)
    with Cons.prems show ?thesis by simp
  next
    case (Inr d1)
    with Cons.prems have "exec ss d1 = (e, d')" by simp
    moreover from Inr Cons.prems have "d1 k \<noteq> None"
      using stmt_keeps [of s now d d1 k] by simp
    moreover from Cons.prems have "set ss \<subseteq> set (init_args_stmts now)" by simp
    ultimately show ?thesis by (rule Cons.IH [rotated])
  qed
qed

subsection \<open>What a successful run has read and written\<close>

lemma stmt_frame:
  assumes "s \<in> set (init_args_stmts now)" and "s d = Inr d'"
    and "k \<notin> set derived_keys" and "k \<noteq> ''run_id''"
  shows "d' k = d k"
  using assms unfolding init_args_stmts_def derived_keys_def
  by (auto dest: stmt_other)


lemma exec_sets:
  assumes "exec ss d = (None, d')" and "s \<in> set ss"
    and "set ss \<subseteq> set (init_args_stmts now)"
    and "\<And>da db. s da = Inr db \<Longrightarrow> db k \<noteq> None"
  shows "d' k \<noteq> None"
  using assms(1,2,3)
proof (induction ss arbitrary: d)
  case Nil
  then show ?case by simp
next
  case (Cons a ss)
  from Cons.prems(1) obtain d1 where a: "a d = Inr d1" and rest: "exec ss d1 = (None, d')"
    by (cases "a d") auto
  from Cons.prems(3) have sub: "set ss \<subseteq> set (init_args_stmts now)" by simp
  show ?case
  proof (cases "s = a")
    case True
    with a assms(4) have "d1 k \<noteq> None" by blast
    with sub rest show ?thesis by (rule exec_keeps)
  next
    case False
    with Cons.prems(2) have "s \<in> set ss" by simp
    with Cons.IH rest sub show ?thesis by blast
  qed
qed


lemma init_args_writes:
  assumes ok: "init_args now d = (None, d')"
  shows "list_all (\<lambda>k. d' k \<noteq> None)
     [''run_id'', ''bucket_name'', ''custom_sources_path'', ''sources_map_k'',
      ''sources_map_v'', ''log_dir'', ''gcs_log_dir'', ''no_external_ip_flag'',
      ''accelerator_flag'', ''storage_location_flag'', ''metadata_flag'']"
proof -
  from ok have run: "exec (init_args_stmts now) d = (None, d')" by (simp add: init_args_def)
  have wr: "d' j \<noteq> None"
    if "s \<in> set (init_args_stmts now)" and "\<And>da db. s da = Inr db \<Longrightarrow> db j \<noteq> None" for s j
    using run that(1) subset_refl that(2) by (rule exec_sets)
  have 1: "d' ''run_id'' \<noteq> None"
    by (rule wr [of "set_run_id now"]) (auto simp: init_args_stmts_def set_run_id_Inr)
  have 2: "d' ''bucket_name'' \<noteq> None"
    by (rule wr [of set_bucket_name]) (auto simp: init_args_stmts_def set_bucket_name_Inr)
  have 3: "d' ''custom_sources_path'' \<noteq> None"
    by (rule wr [of set_custom_sources_path])
       (auto simp: init_args_stmts_def set_custom_sources_path_Inr)
  have 4: "d' ''sources_map_k'' \<noteq> None"
    by (rule wr [of set_sources_map_k]) (auto simp: init_args_stmts_def set_sources_map_k_Inr)
  have 5: "d' ''sources_map_v'' \<noteq> None"
    by (rule wr [of set_sources_map_v]) (auto simp: init_args_stmts_def set_sources_map_v_Inr)
  have 6: "d' ''log_dir'' \<noteq> None"
    by (rule wr [of set_log_dir]) (auto simp: init_args_stmts_def set_log_dir_Inr)
  have 7: "d' ''gcs_log_dir'' \<noteq> None"
    by (rule wr [of set_gcs_log_dir]) (auto simp: init_args_stmts_def set_gcs_log_dir_Inr)
  have 8: "d' ''no_external_ip_flag'' \<noteq> None"
    by (rule wr [of set_no_external_ip_flag])
       (auto simp: init_args_stmts_def set_no_external_ip_flag_Inr)
  have 9: "d' ''accelerator_flag'' \<noteq> None"
    by (rule wr [of set_accelerator_flag])
       (auto simp: init_args_stmts_def set_accelerator_flag_Inr)
  have 10: "d' ''storage_location_flag'' \<noteq> None"
    by (rule wr [of set_storage_location_flag])
       (auto simp: init_args_stmts_def set_storage_location_flag_Inr)
  have 11: "d' ''metadata_flag'' \<noteq> None"
    by (rule wr [of set_metadata_flag])
       (auto simp: init_args_stmts_def dest: set_metadata_flag_Inr)
  from 1 2 3 4 5 6 7 8 9 10 11 show ?thesis by simp
qed

lemma template_fields:
  "set (fields template) =
     {''run_id'', ''image_name'', ''project_id'', ''zone'', ''log_dir'', ''gcs_log_dir'',
      ''sources_map_k'', ''sources_map_v'', ''custom_sources_path'', ''base_image_family'',
      ''base_image'', ''disk_size'', ''network_flag'', ''subnetwork_flag'',
      ''no_external_ip_flag'', ''machine_type'', ''accelerator_flag'',
      ''service_account_flag'', ''metadata_flag'', ''storage_location_flag'', ''family''}"
  unfolding template_def by (simp add: insert_commute)

subsection \<open>Errors of a run on well-formed options\<close>

lemma update_set: "p \<in> set (AList.update k v al) \<Longrightarrow> p = (k, v) \<or> p \<in> set al"
  by (induction al) (auto split: if_splits)

lemma fold_update_strs:
  "\<forall>p\<in>set base. is_str (snd p) \<Longrightarrow>
   \<forall>p\<in>set (fold (\<lambda>(k, v). AList.update k (PStr v)) kvs base). is_str (snd p)"
proof (induction kvs arbitrary: base)
  case Nil
  then show ?case by simp
next
  case (Cons kv kvs)
  obtain k v where kv: "kv = (k, v)" by (cases kv)
  have "\<forall>p\<in>set (AList.update k (PStr v) base). is_str (snd p)"
  proof
    fix p
    assume "p \<in> set (AList.update k (PStr v) base)"
    then have "p = (k, PStr v) \<or> p \<in> set base" by (rule update_set)
    with Cons.prems show "is_str (snd p)" by (auto simp: is_str_def)
  qed
  then have "\<forall>p\<in>set (fold (\<lambda>(k, v). AList.update k (PStr v)) kvs
       (AList.update k (PStr v) base)). is_str (snd p)"
    by (rule Cons.IH)
  with kv show ?case by simp
qed

lemma is_str_py_str: "is_str v \<Longrightarrow> v = PStr (py_str v)"
  by (cases v) (simp_all add: is_str_def)

lemma value_entries_strs:
  "\<forall>x\<in>set xs. is_str (snd (snd x)) \<Longrightarrow>
   value_entries xs = Inr (map (\<lambda>(i, k, v). array_entry i (py_str v)) xs)"
proof (induction xs)
  case Nil
  then show ?case by simp
next
  case (Cons x xs)
  obtain i k v where x: "x = (i, k, v)" by (cases x)
  with Cons.prems have "is_str v" by simp
  then obtain s where v: "v = PStr s" by (cases v) (simp_all add: is_str_def)
  from Cons have "value_entries xs = Inr (map (\<lambda>(i, k, v). array_entry i (py_str v)) xs)"
    by simp
  with x v show ?case by (simp add: and_then_def)
qed

lemma enumerate_list_snd: "x \<in> set (enumerate_list xs) \<Longrightarrow> snd x \<in> set xs"
  unfolding enumerate_list_def by (cases x) (auto dest: set_zip_rightD)

lemma well_typed_bucket: "well_typed d \<Longrightarrow> d ''gcs_bucket'' = Some v \<Longrightarrow> is_str v"
  by (simp add: well_typed_def)

lemma well_typed_script: "well_typed d \<Longrightarrow> d ''customization_script'' = Some v \<Longrightarrow> is_str v"
  by (simp add: well_typed_def)

lemma well_typed_extra: "well_typed d \<Longrightarrow> d ''extra_sources'' = Some v \<Longrightarrow> is_dict v"
  by (simp add: well_typed_def)

lemma well_typed_timestamp: "well_typed d \<Longrightarrow> d ''timestamp'' = None"
  by (simp add: well_typed_def)

lemma all_sources_well_typed:
  assumes "well_typed d"
  shows "(\<exists>k. all_sources d = Inl (KeyError k) \<and> d k = None) \<or>
         (\<exists>items. all_sources d = Inr items \<and> (\<forall>p\<in>set items. is_str (snd p)))"
proof (cases "d ''customization_script''")
  case None
  then show ?thesis by (simp add: all_sources_def and_then_def getitem_def)
next
  case script: (Some script)
  show ?thesis
  proof (cases "d ''extra_sources''")
    case None
    with script show ?thesis by (simp add: all_sources_def and_then_def getitem_def)
  next
    case (Some extra)
    with assms have "is_dict extra" by (rule well_typed_extra)
    then obtain kvs where extra: "extra = PDict kvs"
      by (cases extra) (simp_all add: is_dict_def)
    from assms script have "is_str script" by (rule well_typed_script)
    then have "\<forall>p\<in>set [(''run.sh'', PStr ''startup_script/run.sh''),
        (''init_actions.sh'', script)]. is_str (snd p)"
      by (simp add: is_str_def)
    then have "\<forall>p\<in>set (fold (\<lambda>(k, v). AList.update k (PStr v)) kvs
       [(''run.sh'', PStr ''startup_script/run.sh''), (''init_actions.sh'', script)]).
       is_str (snd p)"
      by (rule fold_update_strs)
    with script Some extra show ?thesis
      by (simp add: all_sources_def and_then_def getitem_def dict_update_def)
  qed
qed

lemma format_stmt_Inl:
  "and_then (py_format ps d) (\<lambda>s. Inr (g s)) = Inl e \<Longrightarrow> \<exists>k. e = KeyError k \<and> d k = None"
  by (auto simp: and_then_Inl_iff dest: py_format_Inl)

lemma stmt_error:
  assumes "s \<in> set (init_args_stmts now)" and wt: "well_typed d" and err: "s d = Inl e"
  shows "\<exists>k. e = KeyError k \<and> d k = None"
proof -
  from assms(1) consider
      "s = set_run_id now" | "s = set_bucket_name" | "s = set_custom_sources_path"
    | "s = set_sources_map_k" | "s = set_sources_map_v" | "s = set_log_dir"
    | "s = set_gcs_log_dir" | "s = set_network_flags" | "s = set_service_account_flag"
    | "s = set_no_external_ip_flag" | "s = set_accelerator_flag"
    | "s = set_storage_location_flag" | "s = set_metadata_flag"
    by (auto simp: init_args_stmts_def)
  then show ?thesis
  proof cases
    case 1
    from wt have ts: "d ''timestamp'' = None" by (rule well_typed_timestamp)
    with err 1 have none: "d ''run_id'' = None"
      and fmt: "and_then (py_format run_id_format (d(''timestamp'' \<mapsto> PStr (strftime now))))
                 (\<lambda>s. Inr (d(''run_id'' \<mapsto> PStr s))) = Inl e"
      by (simp_all add: set_run_id_def split: if_splits)
    from format_stmt_Inl [OF fmt] obtain k where k: "e = KeyError k"
      and "(d(''timestamp'' \<mapsto> PStr (strftime now))) k = None"
      by blast
    then have "d k = None" by (simp split: if_splits)
    with k show ?thesis by simp
  next
    case 2
    show ?thesis
    proof (cases "d ''gcs_bucket''")
      case None
      with err 2 show ?thesis by (auto simp: set_bucket_name_def and_then_def getitem_def)
    next
      case (Some v)
      with wt have "is_str v" by (rule well_typed_bucket)
      then obtain b where "v = PStr b" by (cases v) (simp_all add: is_str_def)
      with err 2 Some show ?thesis by (auto simp: set_bucket_name_def and_then_def getitem_def)
    qed
  next
    case 3
    from err [unfolded 3 set_custom_sources_path_def] show ?thesis by (rule format_stmt_Inl)
  next
    case 4
    from all_sources_well_typed [OF wt] err show ?thesis
      unfolding 4 set_sources_map_k_def by (auto simp: and_then_def)
  next
    case 5
    from all_sources_well_typed [OF wt] show ?thesis
    proof
      assume "\<exists>k. all_sources d = Inl (KeyError k) \<and> d k = None"
      with err show ?thesis unfolding 5 set_sources_map_v_def by (auto simp: and_then_def)
    next
      assume "\<exists>items. all_sources d = Inr items \<and> (\<forall>p\<in>set items. is_str (snd p))"
      then obtain items where items: "all_sources d = Inr items"
        and strs: "\<forall>p\<in>set items. is_str (snd p)" by blast
      have "\<forall>x\<in>set (enumerate_list items). is_str (snd (snd x))"
        using strs by (blast dest: enumerate_list_snd)
      then have "value_entries (enumerate_list items) =
          Inr (map (\<lambda>(i, k, v). array_entry i (py_str v)) (enumerate_list items))"
        by (rule value_entries_strs)
      with err items show ?thesis unfolding 5 set_sources_map_v_def by (simp add: and_then_def)
    qed
  next
    case 6
    from err [unfolded 6 set_log_dir_def] show ?thesis by (rule format_stmt_Inl)
  next
    case 7
    from err [unfolded 7 set_gcs_log_dir_def] show ?thesis by (rule format_stmt_Inl)
  next
    case 8
    show ?thesis
    proof (cases "d ''subnetwork''")
      case None
      with err 8 show ?thesis by (auto simp: set_network_flags_def and_then_def getitem_def)
    next
      case sub: (Some sub)
      show ?thesis
      proof (cases "truthy sub")
        case True
        with err 8 sub show ?thesis
          unfolding set_network_flags_def py_format_2
          by (auto simp: and_then_def getitem_def)
      next
        case False
        show ?thesis
        proof (cases "d ''network''")
          case None
          with err 8 sub False show ?thesis
            by (auto simp: set_network_flags_def and_then_def getitem_def)
        next
          case (Some net)
          with err 8 sub False show ?thesis
            unfolding set_network_flags_def py_format_2
            by (cases "truthy net") (auto simp: and_then_def getitem_def)
        qed
      qed
    qed
  next
    case 9
    show ?thesis
    proof (cases "d ''service_account''")
      case None
      with err 9 show ?thesis
        by (auto simp: set_service_account_flag_def and_then_def getitem_def)
    next
      case (Some a)
      with err 9 show ?thesis
        unfolding set_service_account_flag_def py_format_2
        by (cases "truthy a") (auto simp: and_then_def getitem_def)
    qed
  next
    case 10
    with err show ?thesis
      by (cases "d ''no_external_ip''")
         (auto simp: set_no_external_ip_flag_def and_then_def getitem_def)
  next
    case 11
    show ?thesis
    proof (cases "d ''accelerator''")
      case None
      with err 11 show ?thesis
        by (auto simp: set_accelerator_flag_def and_then_def getitem_def)
    next
      case (Some a)
      with err 11 show ?thesis
        unfolding set_accelerator_flag_def py_format_3
        by (cases "truthy a") (auto simp: and_then_def getitem_def)
    qed
  next
    case 12
    show ?thesis
    proof (cases "d ''storage_location''")
      case None
      with err 12 show ?thesis
        by (auto simp: set_storage_location_flag_def and_then_def getitem_def)
    next
      case (Some l)
      with err 12 show ?thesis
        unfolding set_storage_location_flag_def py_format_2
        by (cases "truthy l") (auto simp: and_then_def getitem_def)
    qed
  next
    case 13
    show ?thesis
    proof (cases "d ''metadata''")
      case None
      with err 13 show ?thesis by (auto simp: set_metadata_flag_def and_then_def getitem_def)
    next
      case (Some m)
      with err 13 have "and_then (py_format
          (if truthy m then metadata_flag_template @ [Lit '','', Field ''metadata'']
           else metadata_flag_template) d)
          (\<lambda>s. Inr (d(''metadata_flag'' \<mapsto> PStr s))) = Inl e"
        by (simp add: set_metadata_flag_def and_then_def getitem_def)
      then show ?thesis by (rule format_stmt_Inl)
    qed
  qed
qed

lemma stmt_well_typed:
  assumes "s \<in> set (init_args_stmts now)" and "well_typed d" and "s d = Inr d'"
  shows "well_typed d'"
proof -
  have "d' ''timestamp'' = d ''timestamp''" "d' ''gcs_bucket'' = d ''gcs_bucket''"
    "d' ''customization_script'' = d ''customization_script''"
    "d' ''extra_sources'' = d ''extra_sources''"
    by (rule stmt_frame [OF assms(1,3)]; simp add: derived_keys_def)+
  with assms(2) show ?thesis by (simp add: well_typed_def)
qed

lemma exec_error:
  assumes "set ss \<subseteq> set (init_args_stmts now)" and "well_typed d"
    and "exec ss d = (Some e, d')"
  shows "\<exists>k. e = KeyError k \<and> d k = None"
  using assms
proof (induction ss arbitrary: d)
  case Nil
  then show ?case by simp
next
  case (Cons a ss)
  from Cons.prems(1) have a: "a \<in> set (init_args_stmts now)"
    and sub: "set ss \<subseteq> set (init_args_stmts now)" by simp_all
  show ?case
  proof (cases "a d")
    case (Inl err)
    with Cons.prems(3) have "err = e" by simp
    with Inl have "a d = Inl e" by simp
    with a Cons.prems(2) show ?thesis by (rule stmt_error)
  next
    case (Inr d1)
    with Cons.prems(3) have rest: "exec ss d1 = (Some e, d')" by simp
    from a Cons.prems(2) Inr have "well_typed d1" by (rule stmt_well_typed)
    with sub rest obtain k where k: "e = KeyError k" and none: "d1 k = None"
      using Cons.IH by blast
    have "d k = None"
    proof (rule ccontr)
      assume "d k \<noteq> None"
      with a Inr have "d1 k \<noteq> None" by (rule stmt_keeps)
      with none show False by simp
    qed
    with k show ?thesis by simp
  qed
qed

lemma exec_well_typed:
  assumes "set ss \<subseteq> set (init_args_stmts now)" and "well_typed d" and "exec ss d = (e, d')"
  shows "well_typed d'"
proof -
  have "d' ''timestamp'' = d ''timestamp''" "d' ''gcs_bucket'' = d ''gcs_bucket''"
    "d' ''customization_script'' = d ''customization_script''"
    "d' ''extra_sources'' = d ''extra_sources''"
    by (rule stmts_frame [OF assms(1,3)]; simp add: derived_keys_def)+
  with assms(2) show ?thesis by (simp add: well_typed_def)
qed


lemma generate_error:
  assumes "well_typed d" and "fst (generate now d) = Inl e"
  shows "\<exists>k. e = KeyError k \<and> d k = None"
proof -
  obtain r d' where ia: "init_args now d = (r, d')" by (cases "init_args now d")
  show ?thesis
  proof (cases r)
    case (Some err)
    with ia assms(2) have "err = e" by (simp add: generate_def)
    with ia Some have "exec (init_args_stmts now) d = (Some e, d')" by (simp add: init_args_def)
    with subset_refl assms(1) show ?thesis by (rule exec_error)
  next
    case None
    with ia assms(2) have fmt: "py_format template d' = Inl e" by (simp add: generate_def)
    from py_format_Inl [OF fmt] obtain k where k: "e = KeyError k" and none: "d' k = None"
      by blast
    from ia have run: "exec (init_args_stmts now) d = (r, d')" by (simp add: init_args_def)
    have "d k = None"
    proof (rule ccontr)
      assume nz: "d k \<noteq> None"
      have "d' k \<noteq> None" by (rule exec_keeps [OF subset_refl run nz])
      with none show False by simp
    qed
    with k show ?thesis by simp
  qed
qed

subsection \<open>The run identifier and the bucket\<close>

lemma exec_ConsE:
  assumes "exec (s # ss) d = (None, d')"
  obtains d1 where "s d = Inr d1" and "exec ss d1 = (None, d')"
  using assms by (cases "s d") auto

lemma exec_appendE:
  assumes "exec (ss @ ts) d = (None, d')"
  obtains dm where "exec ss d = (None, dm)" and "exec ts dm = (None, d')"
proof -
  obtain e dm where ss: "exec ss d = (e, dm)" by (cases "exec ss d")
  with assms have "e = None" and "exec ts dm = (None, d')"
    by (cases e; simp add: exec_append)+
  with ss that show thesis by simp
qed



lemma py_replace_no_occurrence: "\<not> sublist old s \<Longrightarrow> py_replace old new s = s"
proof (induction s)
  case Nil
  then show ?case by simp
next
  case (Cons c cs)
  then have "\<not> prefix old (c # cs)" and "\<not> sublist old cs"
    by (simp_all add: sublist_Cons_right)
  with Cons.IH show ?case by simp
qed

lemma py_replace_prefix:
  assumes "old \<noteq> []"
  shows "py_replace old new (old @ s) = new @ py_replace old new s"
proof -
  from assms obtain c cs where old: "old = c # cs" by (cases old) auto
  have "py_replace old new (c # (cs @ s)) =
      new @ py_replace old new (drop (length old - 1) (cs @ s))"
    using assms by (simp add: old)
  then show ?thesis by (simp add: old)
qed

lemma replace_is_strip:
  assumes "\<not> sublist ''gs://'' (strip_scheme_prefix b)"
  shows "py_replace ''gs://'' [] b = strip_scheme_prefix b"
proof (cases "prefix ''gs://'' b")
  case True
  then obtain rest where b: "b = ''gs://'' @ rest" by (auto elim: prefixE)
  from True have strip: "strip_scheme_prefix b = drop 5 b" by (simp add: strip_scheme_prefix_def)
  have rest: "drop 5 b = rest" unfolding b by simp
  with assms strip have "\<not> sublist ''gs://'' rest" by simp
  then have "py_replace ''gs://'' [] rest = rest" by (rule py_replace_no_occurrence)
  moreover have "py_replace ''gs://'' [] (''gs://'' @ rest) = [] @ py_replace ''gs://'' [] rest"
    by (rule py_replace_prefix) simp
  ultimately have "py_replace ''gs://'' [] (''gs://'' @ rest) = rest" by simp
  with strip rest show ?thesis unfolding b by simp
next
  case False
  then have "strip_scheme_prefix b = b" by (simp add: strip_scheme_prefix_def)
  with assms show ?thesis by (simp add: py_replace_no_occurrence)
qed

lemma digit_char_is_digit: "is_digit (digit_char n)"
proof -
  have "n mod 10 < 10" by simp
  then have "(48 + n mod 10) mod 256 = 48 + n mod 10" by simp
  then show ?thesis by (simp add: is_digit_def digit_char_def)
qed

lemma strftime_shape:
  "length (strftime t) = 15 \<and> list_all is_digit (take 8 (strftime t)) \<and>
   strftime t ! 8 = CHR ''-'' \<and> list_all is_digit (drop 9 (strftime t))"
  by (simp add: strftime_def pad4_def pad2_def digit_char_is_digit)

subsection \<open>When rendering succeeds\<close>

lemma py_format_succeeds:
  "succeeds (py_format ps d) = list_all (\<lambda>k. d k \<noteq> None) (fields ps)"
proof (induction ps)
  case Nil
  then show ?case by (simp add: succeeds_def)
next
  case (Cons p ps)
  show ?case
  proof (cases p)
    case (Lit s)
    with Cons show ?thesis
      by (cases "py_format ps d") (simp_all add: succeeds_def and_then_def)
  next
    case (Field k)
    with Cons show ?thesis
      by (cases "d k"; cases "py_format ps d")
         (simp_all add: succeeds_def and_then_def getitem_def)
  qed
qed

lemma exec_sets_if:
  assumes "exec ss d0 = (None, d')" and "s \<in> set ss"
    and "set ss \<subseteq> set (init_args_stmts now)"
    and "\<forall>j. j \<notin> set derived_keys \<and> j \<noteq> ''run_id'' \<longrightarrow> d0 j = d j"
    and "\<And>da db. s da = Inr db \<Longrightarrow>
           \<forall>j. j \<notin> set derived_keys \<and> j \<noteq> ''run_id'' \<longrightarrow> da j = d j \<Longrightarrow> db k \<noteq> None"
  shows "d' k \<noteq> None"
  using assms(1,2,3,4)
proof (induction ss arbitrary: d0)
  case Nil
  then show ?case by simp
next
  case (Cons a ss)
  from Cons.prems(1) obtain d1 where a: "a d0 = Inr d1" and rest: "exec ss d1 = (None, d')"
    by (rule exec_ConsE)
  from Cons.prems(3) have ain: "a \<in> set (init_args_stmts now)"
    and sub: "set ss \<subseteq> set (init_args_stmts now)" by simp_all
  show ?case
  proof (cases "s = a")
    case True
    with a Cons.prems(4) assms(5) have "d1 k \<noteq> None" by blast
    with sub rest show ?thesis by (rule exec_keeps)
  next
    case False
    with Cons.prems(2) have "s \<in> set ss" by simp
    moreover have "\<forall>j. j \<notin> set derived_keys \<and> j \<noteq> ''run_id'' \<longrightarrow> d1 j = d j"
    proof (intro allI impI)
      fix j
      assume j: "j \<notin> set derived_keys \<and> j \<noteq> ''run_id''"
      with ain a have "d1 j = d0 j" by (blast intro: stmt_frame)
      with j Cons.prems(4) show "d1 j = d j" by simp
    qed
    ultimately show ?thesis using Cons.IH rest sub by blast
  qed
qed

lemma init_args_flags_present:
  assumes ok: "init_args now d = (None, d')"
    and sub: "d ''subnetwork'' = Some sub" and net: "d ''network'' = Some net"
    and tr: "truthy sub \<or> truthy net"
    and sa: "d ''service_account'' = Some a" and tra: "truthy a"
  shows "d' ''network_flag'' \<noteq> None \<and> d' ''subnetwork_flag'' \<noteq> None \<and>
         d' ''service_account_flag'' \<noteq> None"
proof -
  from ok have run: "exec (init_args_stmts now) d = (None, d')" by (simp add: init_args_def)
  have wr: "d' k \<noteq> None"
    if "s \<in> set (init_args_stmts now)"
      and "\<And>da db. s da = Inr db \<Longrightarrow>
           \<forall>j. j \<notin> set derived_keys \<and> j \<noteq> ''run_id'' \<longrightarrow> da j = d j \<Longrightarrow> db k \<noteq> None"
    for s k
    by (rule exec_sets_if [OF run that(1) subset_refl _ that(2)]) simp_all
  have opt: "da ''subnetwork'' = Some sub \<and> da ''network'' = Some net \<and>
      da ''service_account'' = Some a"
    if "\<forall>j. j \<notin> set derived_keys \<and> j \<noteq> ''run_id'' \<longrightarrow> da j = d j" for da
    using that sub net sa by (simp add: derived_keys_def)
  have 1: "d' ''network_flag'' \<noteq> None"
  proof (rule wr [of set_network_flags])
    show "set_network_flags \<in> set (init_args_stmts now)" by (simp add: init_args_stmts_def)
  next
    fix da db
    assume "set_network_flags da = Inr db"
      and "\<forall>j. j \<notin> set derived_keys \<and> j \<noteq> ''run_id'' \<longrightarrow> da j = d j"
    with opt [of da] tr show "db ''network_flag'' \<noteq> None"
      by (auto simp: set_network_flags_Inr split: if_splits)
  qed
  have 2: "d' ''subnetwork_flag'' \<noteq> None"
  proof (rule wr [of set_network_flags])
    show "set_network_flags \<in> set (init_args_stmts now)" by (simp add: init_args_stmts_def)
  next
    fix da db
    assume "set_network_flags da = Inr db"
      and "\<forall>j. j \<notin> set derived_keys \<and> j \<noteq> ''run_id'' \<longrightarrow> da j = d j"
    with opt [of da] tr show "db ''subnetwork_flag'' \<noteq> None"
      by (auto simp: set_network_flags_Inr split: if_splits)
  qed
  have 3: "d' ''service_account_flag'' \<noteq> None"
  proof (rule wr [of set_service_account_flag])
    show "set_service_account_flag \<in> set (init_args_stmts now)"
      by (simp add: init_args_stmts_def)
  next
    fix da db
    assume "set_service_account_flag da = Inr db"
      and "\<forall>j. j \<notin> set derived_keys \<and> j \<noteq> ''run_id'' \<longrightarrow> da j = d j"
    with opt [of da] tra show "db ''service_account_flag'' \<noteq> None"
      by (auto simp: set_service_account_flag_Inr)
  qed
  from 1 2 3 show ?thesis by simp
qed

lemma generate_succeeds:
  assumes ok: "fst (init_args now d) = None"
    and opts: "list_all (\<lambda>k. d k \<noteq> None)
       [''image_name'', ''project_id'', ''zone'', ''base_image_family'', ''base_image'',
        ''disk_size'', ''machine_type'', ''family'']"
    and sub: "d ''subnetwork'' = Some sub" and net: "d ''network'' = Some net"
    and tr: "truthy sub \<or> truthy net"
    and sa: "d ''service_account'' = Some a" and tra: "truthy a"
  shows "succeeds (fst (generate now d))"
proof -
  obtain d' where res: "init_args now d = (None, d')"
    using ok by (cases "init_args now d") simp
  have same: "d' k = d k" if "k \<notin> set derived_keys" "k \<noteq> ''run_id''" for k
    using res that by (rule init_args_frame)
  have "list_all (\<lambda>k. d' k \<noteq> None)
       [''image_name'', ''project_id'', ''zone'', ''base_image_family'', ''base_image'',
        ''disk_size'', ''machine_type'', ''family'']"
    using opts by (simp add: same derived_keys_def)
  with init_args_writes [OF res] init_args_flags_present [OF res sub net tr sa tra]
  have "list_all (\<lambda>k. d' k \<noteq> None) (fields template)"
    by (simp add: list_all_iff template_fields)
  then have "succeeds (py_format template d')" by (simp add: py_format_succeeds)
  with res show ?thesis by (simp add: generate_def)
qed


lemma full_options_resolve: "fst (init_args demo_clock full_options) = None"
  by code_simp

lemma full_options_generate: "succeeds (fst (generate demo_clock full_options))"
  by (rule generate_succeeds [OF full_options_resolve,
        where sub = "PStr []" and net = "PStr ''default''"
          and a = "PStr ''builder@p.iam.gserviceaccount.com''"])
     (simp_all add: full_options_def demo_options_def)

subsection \<open>The key that an error names\<close>

lemma option_fields_frame: "k \<in> set option_fields \<Longrightarrow> k \<notin> set derived_keys \<and> k \<noteq> ''run_id''"
  by (auto simp: option_fields_def required_fields_def derived_keys_def)

lemma format_stmt_Inl_field:
  "and_then (py_format ps d) (\<lambda>s. Inr (g s)) = Inl e \<Longrightarrow>
   \<exists>k. e = KeyError k \<and> d k = None \<and> k \<in> set (fields ps)"
  by (auto simp: and_then_Inl_iff dest: py_format_Inl)

lemma all_sources_Inl:
  assumes wt: "well_typed d" and err: "all_sources d = Inl e"
  shows "d ''customization_script'' = None \<and> e = KeyError ''customization_script'' \<or>
         d ''extra_sources'' = None \<and> e = KeyError ''extra_sources''"
proof (cases "d ''customization_script''")
  case None
  with err show ?thesis by (simp add: all_sources_def and_then_def getitem_def)
next
  case script: (Some script)
  show ?thesis
  proof (cases "d ''extra_sources''")
    case None
    with err script show ?thesis by (simp add: all_sources_def and_then_def getitem_def)
  next
    case (Some extra)
    with wt have "is_dict extra" by (rule well_typed_extra)
    then obtain kvs where "extra = PDict kvs" by (cases extra) (simp_all add: is_dict_def)
    with err script Some show ?thesis
      by (simp add: all_sources_def and_then_def getitem_def dict_update_def)
  qed
qed

lemma key_errorI:
  assumes "e = KeyError k" and "d k = None"
    and "k \<in> set (option_fields @ [''run_id'', ''bucket_name'', ''custom_sources_path''])"
    and "k = ''network'' \<longrightarrow> \<not> option_set d ''subnetwork''"
  shows "\<exists>k. e = KeyError k \<and> d k = None \<and>
           k \<in> set (option_fields @ [''run_id'', ''bucket_name'', ''custom_sources_path'']) \<and>
           (k = ''network'' \<longrightarrow> \<not> option_set d ''subnetwork'')"
  using assms by blast

lemma stmt_error_key:
  assumes s: "s \<in> set [set_sources_map_k, set_sources_map_v, set_log_dir, set_gcs_log_dir,
      set_network_flags, set_service_account_flag, set_no_external_ip_flag,
      set_accelerator_flag, set_storage_location_flag, set_metadata_flag]"
    and wt: "well_typed d" and err: "s d = Inl e"
  shows "\<exists>k. e = KeyError k \<and> d k = None \<and>
           k \<in> set (option_fields @ [''run_id'', ''bucket_name'', ''custom_sources_path'']) \<and>
           (k = ''network'' \<longrightarrow> \<not> option_set d ''subnetwork'')"
proof -
  from s consider
      "s = set_sources_map_k" | "s = set_sources_map_v" | "s = set_log_dir"
    | "s = set_gcs_log_dir" | "s = set_network_flags" | "s = set_service_account_flag"
    | "s = set_no_external_ip_flag" | "s = set_accelerator_flag"
    | "s = set_storage_location_flag" | "s = set_metadata_flag"
    by auto
  then show ?thesis
  proof cases
    case 1
    from err have "all_sources d = Inl e"
      unfolding 1 set_sources_map_k_def by (cases "all_sources d") (simp_all add: and_then_def)
    from all_sources_Inl [OF wt this] show ?thesis
    proof
      assume "d ''customization_script'' = None \<and> e = KeyError ''customization_script''"
      then show ?thesis
        by (intro key_errorI [where k = "''customization_script''"])
           (simp_all add: option_fields_def required_fields_def)
    next
      assume "d ''extra_sources'' = None \<and> e = KeyError ''extra_sources''"
      then show ?thesis
        by (intro key_errorI [where k = "''extra_sources''"])
           (simp_all add: option_fields_def required_fields_def)
    qed
  next
    case 2
    have "all_sources d = Inl e"
    proof (cases "all_sources d")
      case (Inl e')
      with err show ?thesis unfolding 2 set_sources_map_v_def by (simp add: and_then_def)
    next
      case (Inr items)
      from all_sources_well_typed [OF wt] Inr
      have strs: "\<forall>p\<in>set items. is_str (snd p)" by auto
      have "\<forall>x\<in>set (enumerate_list items). is_str (snd (snd x))"
        using strs by (blast dest: enumerate_list_snd)
      then have "value_entries (enumerate_list items) =
          Inr (map (\<lambda>(i, k, v). array_entry i (py_str v)) (enumerate_list items))"
        by (rule value_entries_strs)
      with err Inr show ?thesis unfolding 2 set_sources_map_v_def by (simp add: and_then_def)
    qed
    from all_sources_Inl [OF wt this] show ?thesis
    proof
      assume "d ''customization_script'' = None \<and> e = KeyError ''customization_script''"
      then show ?thesis
        by (intro key_errorI [where k = "''customization_script''"])
           (simp_all add: option_fields_def required_fields_def)
    next
      assume "d ''extra_sources'' = None \<and> e = KeyError ''extra_sources''"
      then show ?thesis
        by (intro key_errorI [where k = "''extra_sources''"])
           (simp_all add: option_fields_def required_fields_def)
    qed
  next
    case 3
    from format_stmt_Inl_field [OF err [unfolded 3 set_log_dir_def]]
    have "e = KeyError ''run_id'' \<and> d ''run_id'' = None" by auto
    then show ?thesis
      by (intro key_errorI [where k = "''run_id''"]) simp_all
  next
    case 4
    from format_stmt_Inl_field [OF err [unfolded 4 set_gcs_log_dir_def]]
    have "e = KeyError ''run_id'' \<and> d ''run_id'' = None \<or>
          e = KeyError ''bucket_name'' \<and> d ''bucket_name'' = None" by auto
    then show ?thesis
    proof
      assume "e = KeyError ''run_id'' \<and> d ''run_id'' = None"
      then show ?thesis by (intro key_errorI [where k = "''run_id''"]) simp_all
    next
      assume "e = KeyError ''bucket_name'' \<and> d ''bucket_name'' = None"
      then show ?thesis by (intro key_errorI [where k = "''bucket_name''"]) simp_all
    qed
  next
    case 5
    show ?thesis
    proof (cases "d ''subnetwork''")
      case None
      with err 5 have "e = KeyError ''subnetwork''"
        by (auto simp: set_network_flags_def and_then_def getitem_def)
      with None show ?thesis
        by (intro key_errorI [where k = "''subnetwork''"])
           (simp_all add: option_fields_def required_fields_def)
    next
      case sub: (Some sub)
      show ?thesis
      proof (cases "truthy sub")
        case True
        with err 5 sub show ?thesis
          unfolding set_network_flags_def py_format_2
          by (auto simp: and_then_def getitem_def)
      next
        case False
        show ?thesis
        proof (cases "d ''network''")
          case None
          with err 5 sub False have "e = KeyError ''network''"
            by (auto simp: set_network_flags_def and_then_def getitem_def)
          with None sub False show ?thesis
            by (intro key_errorI [where k = "''network''"])
               (simp_all add: option_fields_def required_fields_def option_set_def)
        next
          case (Some net)
          with err 5 sub False show ?thesis
            unfolding set_network_flags_def py_format_2
            by (cases "truthy net") (auto simp: and_then_def getitem_def)
        qed
      qed
    qed
  next
    case 6
    show ?thesis
    proof (cases "d ''service_account''")
      case None
      with err 6 have "e = KeyError ''service_account''"
        by (auto simp: set_service_account_flag_def and_then_def getitem_def)
      with None show ?thesis
        by (intro key_errorI [where k = "''service_account''"])
           (simp_all add: option_fields_def required_fields_def)
    next
      case (Some a)
      with err 6 show ?thesis
        unfolding set_service_account_flag_def py_format_2
        by (cases "truthy a") (auto simp: and_then_def getitem_def)
    qed
  next
    case 7
    show ?thesis
    proof (cases "d ''no_external_ip''")
      case None
      with err 7 have "e = KeyError ''no_external_ip''"
        by (auto simp: set_no_external_ip_flag_def and_then_def getitem_def)
      with None show ?thesis
        by (intro key_errorI [where k = "''no_external_ip''"])
           (simp_all add: option_fields_def required_fields_def)
    next
      case (Some b)
      with err 7 show ?thesis
        by (auto simp: set_no_external_ip_flag_def and_then_def getitem_def)
    qed
  next
    case 8
    show ?thesis
    proof (cases "d ''accelerator''")
      case None
      with err 8 have "e = KeyError ''accelerator''"
        by (auto simp: set_accelerator_flag_def and_then_def getitem_def)
      with None show ?thesis
        by (intro key_errorI [where k = "''accelerator''"])
           (simp_all add: option_fields_def required_fields_def)
    next
      case (Some a)
      with err 8 show ?thesis
        unfolding set_accelerator_flag_def py_format_3
        by (cases "truthy a") (auto simp: and_then_def getitem_def)
    qed
  next
    case 9
    show ?thesis
    proof (cases "d ''storage_location''")
      case None
      with err 9 have "e = KeyError ''storage_location''"
        by (auto simp: set_storage_location_flag_def and_then_def getitem_def)
      with None show ?thesis
        by (intro key_errorI [where k = "''storage_location''"])
           (simp_all add: option_fields_def required_fields_def)
    next
      case (Some l)
      with err 9 show ?thesis
        unfolding set_storage_location_flag_def py_format_2
        by (cases "truthy l") (auto simp: and_then_def getitem_def)
    qed
  next
    case 10
    show ?thesis
    proof (cases "d ''metadata''")
      case None
      with err 10 have "e = KeyError ''metadata''"
        by (auto simp: set_metadata_flag_def and_then_def getitem_def)
      with None show ?thesis
        by (intro key_errorI [where k = "''metadata''"])
           (simp_all add: option_fields_def required_fields_def)
    next
      case (Some m)
      with err 10 have "and_then (py_format
          (if truthy m then metadata_flag_template @ [Lit '','', Field ''metadata'']
           else metadata_flag_template) d)
          (\<lambda>s. Inr (d(''metadata_flag'' \<mapsto> PStr s))) = Inl e"
        by (simp add: set_metadata_flag_def and_then_def getitem_def)
      from format_stmt_Inl_field [OF this] Some
      have "e = KeyError ''shutdown_timer_in_sec'' \<and> d ''shutdown_timer_in_sec'' = None \<or>
            e = KeyError ''custom_sources_path'' \<and> d ''custom_sources_path'' = None"
        by (cases "truthy m") (auto simp: metadata_flag_template_def)
      then show ?thesis
      proof
        assume "e = KeyError ''shutdown_timer_in_sec'' \<and> d ''shutdown_timer_in_sec'' = None"
        then show ?thesis
          by (intro key_errorI [where k = "''shutdown_timer_in_sec''"])
             (simp_all add: option_fields_def required_fields_def)
      next
        assume "e = KeyError ''custom_sources_path'' \<and> d ''custom_sources_path'' = None"
        then show ?thesis
          by (intro key_errorI [where k = "''custom_sources_path''"]) simp_all
      qed
    qed
  qed
qed

lemma later_stmts_subset:
  "set [set_sources_map_k, set_sources_map_v, set_log_dir, set_gcs_log_dir,
      set_network_flags, set_service_account_flag, set_no_external_ip_flag,
      set_accelerator_flag, set_storage_location_flag, set_metadata_flag]
   \<subseteq> set (init_args_stmts now)"
  by (simp add: init_args_stmts_def)

lemma exec_error_key:
  assumes "set ss \<subseteq> set [set_sources_map_k, set_sources_map_v, set_log_dir, set_gcs_log_dir,
      set_network_flags, set_service_account_flag, set_no_external_ip_flag,
      set_accelerator_flag, set_storage_location_flag, set_metadata_flag]"
    and "well_typed d" and "exec ss d = (Some e, d')"
  shows "\<exists>k. e = KeyError k \<and> d k = None \<and>
           k \<in> set (option_fields @ [''run_id'', ''bucket_name'', ''custom_sources_path'']) \<and>
           (k = ''network'' \<longrightarrow> \<not> option_set d ''subnetwork'')"
  using assms
proof (induction ss arbitrary: d)
  case Nil
  then show ?case by simp
next
  case (Cons a ss)
  from Cons.prems(1) have a: "a \<in> set [set_sources_map_k, set_sources_map_v, set_log_dir,
      set_gcs_log_dir, set_network_flags, set_service_account_flag, set_no_external_ip_flag,
      set_accelerator_flag, set_storage_location_flag, set_metadata_flag]"
    and sub: "set ss \<subseteq> set [set_sources_map_k, set_sources_map_v, set_log_dir,
      set_gcs_log_dir, set_network_flags, set_service_account_flag, set_no_external_ip_flag,
      set_accelerator_flag, set_storage_location_flag, set_metadata_flag]"
    by simp_all
  from a have ain: "a \<in> set (init_args_stmts now)"
    using later_stmts_subset [of now] by blast
  show ?case
  proof (cases "a d")
    case (Inl err)
    with Cons.prems(3) have "err = e" by simp
    with Inl have "a d = Inl e" by simp
    with a Cons.prems(2) show ?thesis by (rule stmt_error_key)
  next
    case (Inr d1)
    with Cons.prems(3) have rest: "exec ss d1 = (Some e, d')" by simp
    from ain Cons.prems(2) Inr have "well_typed d1" by (rule stmt_well_typed)
    with sub rest obtain k where k: "e = KeyError k" and none: "d1 k = None"
      and mem: "k \<in> set (option_fields @ [''run_id'', ''bucket_name'', ''custom_sources_path''])"
      and net: "k = ''network'' \<longrightarrow> \<not> option_set d1 ''subnetwork''"
      using Cons.IH by blast
    have "d k = None"
    proof (rule ccontr)
      assume "d k \<noteq> None"
      with ain Inr have "d1 k \<noteq> None" by (rule stmt_keeps)
      with none show False by simp
    qed
    moreover have "d1 ''subnetwork'' = d ''subnetwork''"
      by (rule stmt_frame [OF ain Inr]) (simp_all add: derived_keys_def)
    then have "option_set d1 ''subnetwork'' = option_set d ''subnetwork''"
      by (simp add: option_set_def)
    ultimately show ?thesis using k mem net by blast
  qed
qed

lemma init_args_error_key:
  assumes wt: "well_typed d" and err: "init_args now d = (Some e, d')"
  shows "\<exists>k. e = KeyError k \<and> d k = None \<and> k \<in> set option_fields \<and>
           (k = ''network'' \<longrightarrow> \<not> option_set d ''subnetwork'')"
proof -
  let ?C = "[set_sources_map_k, set_sources_map_v, set_log_dir, set_gcs_log_dir,
      set_network_flags, set_service_account_flag, set_no_external_ip_flag,
      set_accelerator_flag, set_storage_location_flag, set_metadata_flag]"
  from err have run: "exec (set_run_id now # set_bucket_name # set_custom_sources_path # ?C) d =
      (Some e, d')"
    by (simp add: init_args_def init_args_stmts_def)
  from wt have ts: "d ''timestamp'' = None" by (rule well_typed_timestamp)
  show ?thesis
  proof (cases "set_run_id now d")
    case (Inl e1)
    with run have e1: "e1 = e" by simp
    from Inl ts have none: "d ''run_id'' = None"
      by (auto simp: set_run_id_def split: if_splits)
    with Inl ts e1 have "d ''image_name'' = None \<and> e = KeyError ''image_name''"
      unfolding set_run_id_def run_id_format_def py_format_4
      by (cases "d ''image_name''") (auto simp: and_then_def)
    then show ?thesis
      by (intro exI [where x = "''image_name''"])
         (simp add: option_fields_def required_fields_def)
  next
    case (Inr d1)
    with run have run1: "exec (set_bucket_name # set_custom_sources_path # ?C) d1 = (Some e, d')"
      by simp
    have in1: "set_run_id now \<in> set (init_args_stmts now)" by (simp add: init_args_stmts_def)
    from in1 wt Inr have wt1: "well_typed d1" by (rule stmt_well_typed)
    from Inr have rid1: "d1 ''run_id'' \<noteq> None" by (auto simp: set_run_id_Inr)
    have f1: "d1 k = d k" if "k \<in> set option_fields" for k
      using option_fields_frame [OF that] by (intro stmt_frame [OF in1 Inr]) simp_all
    show ?thesis
    proof (cases "set_bucket_name d1")
      case (Inl e2)
      with run1 have e2: "e2 = e" by simp
      have "d1 ''gcs_bucket'' = None \<and> e = KeyError ''gcs_bucket''"
      proof (cases "d1 ''gcs_bucket''")
        case None
        with Inl e2 show ?thesis by (auto simp: set_bucket_name_def and_then_def getitem_def)
      next
        case (Some v)
        with wt1 have "is_str v" by (rule well_typed_bucket)
        then obtain b where "v = PStr b" by (cases v) (simp_all add: is_str_def)
        with Inl Some show ?thesis by (simp add: set_bucket_name_def and_then_def getitem_def)
      qed
      moreover have "d1 ''gcs_bucket'' = d ''gcs_bucket''"
        by (rule f1) (simp add: option_fields_def required_fields_def)
      ultimately have "d ''gcs_bucket'' = None \<and> e = KeyError ''gcs_bucket''" by simp
      then show ?thesis
        by (intro exI [where x = "''gcs_bucket''"])
           (simp add: option_fields_def required_fields_def)
    next
      case (Inr d2)
      with run1 have run2: "exec (set_custom_sources_path # ?C) d2 = (Some e, d')" by simp
      have in2: "set_bucket_name \<in> set (init_args_stmts now)" by (simp add: init_args_stmts_def)
      from in2 wt1 Inr have wt2: "well_typed d2" by (rule stmt_well_typed)
      from Inr have bn2: "d2 ''bucket_name'' \<noteq> None" by (auto simp: set_bucket_name_Inr)
      from in2 Inr rid1 have rid2: "d2 ''run_id'' \<noteq> None" by (rule stmt_keeps)
      have f2: "d2 k = d k" if "k \<in> set option_fields" for k
      proof -
        have "d2 k = d1 k"
          using option_fields_frame [OF that] by (intro stmt_frame [OF in2 Inr]) simp_all
        with f1 [OF that] show ?thesis by simp
      qed
      from bn2 rid2 obtain d3 where s3: "set_custom_sources_path d2 = Inr d3"
        by (auto simp: set_custom_sources_path_Inr)
      with run2 have run3: "exec ?C d3 = (Some e, d')" by simp
      have in3: "set_custom_sources_path \<in> set (init_args_stmts now)"
        by (simp add: init_args_stmts_def)
      from in3 wt2 s3 have wt3: "well_typed d3" by (rule stmt_well_typed)
      from s3 have csp3: "d3 ''custom_sources_path'' \<noteq> None"
        by (auto simp: set_custom_sources_path_Inr)
      from in3 s3 bn2 have bn3: "d3 ''bucket_name'' \<noteq> None" by (rule stmt_keeps)
      from in3 s3 rid2 have rid3: "d3 ''run_id'' \<noteq> None" by (rule stmt_keeps)
      have f3: "d3 k = d k" if "k \<in> set option_fields" for k
      proof -
        have "d3 k = d2 k"
          using option_fields_frame [OF that] by (intro stmt_frame [OF in3 s3]) simp_all
        with f2 [OF that] show ?thesis by simp
      qed
      from exec_error_key [OF subset_refl wt3 run3]
      obtain k where k: "e = KeyError k" and none: "d3 k = None"
        and mem: "k \<in> set (option_fields @ [''run_id'', ''bucket_name'', ''custom_sources_path''])"
        and net: "k = ''network'' \<longrightarrow> \<not> option_set d3 ''subnetwork''"
        by blast
      from mem none csp3 bn3 rid3 have opt: "k \<in> set option_fields" by auto
      from f3 [OF opt] none have "d k = None" by simp
      moreover have "d3 ''subnetwork'' = d ''subnetwork''"
        by (rule f3) (simp add: option_fields_def required_fields_def)
      then have "option_set d3 ''subnetwork'' = option_set d ''subnetwork''"
        by (simp add: option_set_def)
      ultimately show ?thesis using k opt net by blast
    qed
  qed
qed

subsection \<open>The flags of the two branches\<close>

lemma init_args_branch_flags:
  assumes ok: "init_args now d = (None, d')"
  shows "(option_set d ''subnetwork'' \<or> option_set d ''network'' \<longrightarrow>
            d' ''network_flag'' \<noteq> None \<and> d' ''subnetwork_flag'' \<noteq> None) \<and>
         (option_set d ''service_account'' \<longrightarrow> d' ''service_account_flag'' \<noteq> None)"
proof -
  from ok have run: "exec (init_args_stmts now) d = (None, d')" by (simp add: init_args_def)
  have wr: "d' k \<noteq> None"
    if "s \<in> set (init_args_stmts now)"
      and "\<And>da db. s da = Inr db \<Longrightarrow>
           \<forall>j. j \<notin> set derived_keys \<and> j \<noteq> ''run_id'' \<longrightarrow> da j = d j \<Longrightarrow> db k \<noteq> None"
    for s k
    by (rule exec_sets_if [OF run that(1) subset_refl _ that(2)]) simp_all
  have opt: "da ''subnetwork'' = d ''subnetwork'' \<and> da ''network'' = d ''network'' \<and>
      da ''service_account'' = d ''service_account''"
    if "\<forall>j. j \<notin> set derived_keys \<and> j \<noteq> ''run_id'' \<longrightarrow> da j = d j" for da
    using that by (simp add: derived_keys_def)
  have net: "db ''network_flag'' \<noteq> None \<and> db ''subnetwork_flag'' \<noteq> None"
    if set: "option_set d ''subnetwork'' \<or> option_set d ''network''"
      and step: "set_network_flags da = Inr db"
      and fr: "\<forall>j. j \<notin> set derived_keys \<and> j \<noteq> ''run_id'' \<longrightarrow> da j = d j" for da db
  proof -
    from step obtain sub where sub: "da ''subnetwork'' = Some sub"
      and br: "if truthy sub
         then db = da(''subnetwork_flag'' \<mapsto> PStr (''--subnet='' @ py_str sub),
                     ''network_flag'' \<mapsto> PStr '''')
         else (\<exists>net. da ''network'' = Some net \<and>
                 db = (if truthy net
                       then da(''network_flag'' \<mapsto> PStr (''--network='' @ py_str net),
                              ''subnetwork_flag'' \<mapsto> PStr '''')
                       else da))"
      unfolding set_network_flags_Inr by blast
    show ?thesis
    proof (cases "truthy sub")
      case True
      with br show ?thesis by simp
    next
      case False
      with br obtain net where net: "da ''network'' = Some net"
        and db: "db = (if truthy net
                       then da(''network_flag'' \<mapsto> PStr (''--network='' @ py_str net),
                              ''subnetwork_flag'' \<mapsto> PStr '''')
                       else da)"
        by auto
      from opt [OF fr] sub net have "d ''subnetwork'' = Some sub" and "d ''network'' = Some net"
        by simp_all
      with set False have "truthy net" by (simp add: option_set_def)
      with db show ?thesis by simp
    qed
  qed
  have 1: "d' ''network_flag'' \<noteq> None"
    if set: "option_set d ''subnetwork'' \<or> option_set d ''network''"
  proof (rule wr [of set_network_flags])
    show "set_network_flags \<in> set (init_args_stmts now)" by (simp add: init_args_stmts_def)
  next
    fix da db
    assume "set_network_flags da = Inr db"
      and "\<forall>j. j \<notin> set derived_keys \<and> j \<noteq> ''run_id'' \<longrightarrow> da j = d j"
    with net [OF set] show "db ''network_flag'' \<noteq> None" by blast
  qed
  have 2: "d' ''subnetwork_flag'' \<noteq> None"
    if set: "option_set d ''subnetwork'' \<or> option_set d ''network''"
  proof (rule wr [of set_network_flags])
    show "set_network_flags \<in> set (init_args_stmts now)" by (simp add: init_args_stmts_def)
  next
    fix da db
    assume "set_network_flags da = Inr db"
      and "\<forall>j. j \<notin> set derived_keys \<and> j \<noteq> ''run_id'' \<longrightarrow> da j = d j"
    with net [OF set] show "db ''subnetwork_flag'' \<noteq> None" by blast
  qed
  have 3: "d' ''service_account_flag'' \<noteq> None" if set: "option_set d ''service_account''"
  proof (rule wr [of set_service_account_flag])
    show "set_service_account_flag \<in> set (init_args_stmts now)"
      by (simp add: init_args_stmts_def)
  next
    fix da db
    assume step: "set_service_account_flag da = Inr db"
      and fr: "\<forall>j. j \<notin> set derived_keys \<and> j \<noteq> ''run_id'' \<longrightarrow> da j = d j"
    from step obtain a where a: "da ''service_account'' = Some a"
      and db: "db = (if truthy a
              then da(''service_account_flag'' \<mapsto> PStr (''--service-account='' @ py_str a))
              else da)"
      unfolding set_service_account_flag_Inr by blast
    from opt [OF fr] a have "d ''service_account'' = Some a" by simp
    with set have "truthy a" by (simp add: option_set_def)
    with db show "db ''service_account_flag'' \<noteq> None" by simp
  qed
  from 1 2 3 show ?thesis by blast
qed



lemma template_unwritten:
  assumes ok: "init_args now d = (None, d')"
    and mem: "k \<in> set (fields template)" and none: "d' k = None"
  shows "k \<in> set [''image_name'', ''project_id'', ''zone'', ''base_image_family'',
           ''base_image'', ''disk_size'', ''machine_type'', ''family''] \<or>
         k \<in> set branch_flags"
proof -
  have "\<forall>j\<in>set (fields template). d' j = None \<longrightarrow>
      j \<in> set [''image_name'', ''project_id'', ''zone'', ''base_image_family'',
           ''base_image'', ''disk_size'', ''machine_type'', ''family''] \<or>
      j \<in> set branch_flags"
    using init_args_writes [OF ok] by (simp add: template_fields branch_flags_def)
  with mem none show ?thesis by blast
qed

lemma generate_error_key:
  assumes wt: "well_typed d" and err: "fst (generate now d) = Inl e"
  shows "\<exists>k. e = KeyError k \<and> d k = None \<and>
           (k \<in> set option_fields \<and> (k = ''network'' \<longrightarrow> \<not> option_set d ''subnetwork'') \<or>
            k \<in> set branch_flags \<and> fst (init_args now d) = None \<and>
              snd (init_args now d) k = None)"
proof -
  obtain r d' where ia: "init_args now d = (r, d')" by (cases "init_args now d")
  show ?thesis
  proof (cases r)
    case (Some err')
    with ia err have "err' = e" by (simp add: generate_def)
    with ia Some have "init_args now d = (Some e, d')" by simp
    from init_args_error_key [OF wt this] show ?thesis by blast
  next
    case None
    with ia have ok: "init_args now d = (None, d')" by simp
    with err have fmt: "py_format template d' = Inl e" by (simp add: generate_def)
    from py_format_Inl [OF fmt] obtain k where k: "e = KeyError k" and none: "d' k = None"
      and mem: "k \<in> set (fields template)"
      by blast
    from ia have run: "exec (init_args_stmts now) d = (r, d')" by (simp add: init_args_def)
    have dk: "d k = None"
    proof (rule ccontr)
      assume nz: "d k \<noteq> None"
      have "d' k \<noteq> None" by (rule exec_keeps [OF subset_refl run nz])
      with none show False by simp
    qed
    from template_unwritten [OF ok mem none] show ?thesis
    proof
      assume "k \<in> set [''image_name'', ''project_id'', ''zone'', ''base_image_family'',
           ''base_image'', ''disk_size'', ''machine_type'', ''family'']"
      then have "k \<in> set option_fields \<and> k \<noteq> ''network''"
        by (auto simp: option_fields_def required_fields_def)
      with k dk show ?thesis by blast
    next
      assume "k \<in> set branch_flags"
      with k dk ok none show ?thesis by auto
    qed
  qed
qed

lemma generate_renders:
  assumes wt: "well_typed d" and req: "list_all (\<lambda>k. d k \<noteq> None) required_fields"
    and fl: "flag_options_set d"
  shows "succeeds (fst (generate now d))"
proof (cases "fst (generate now d)")
  case (Inr scr)
  then show ?thesis by (simp add: succeeds_def)
next
  case (Inl e)
  from generate_error_key [OF wt Inl] obtain k where none: "d k = None"
    and alt: "k \<in> set option_fields \<and> (k = ''network'' \<longrightarrow> \<not> option_set d ''subnetwork'') \<or>
            k \<in> set branch_flags \<and> fst (init_args now d) = None \<and>
              snd (init_args now d) k = None"
    by blast
  from alt have False
  proof
    assume opt: "k \<in> set option_fields \<and> (k = ''network'' \<longrightarrow> \<not> option_set d ''subnetwork'')"
    show False
    proof (cases "k = ''network''")
      case True
      with opt none have "\<not> option_set d ''subnetwork''" and "\<not> option_set d ''network''"
        by (simp_all add: option_set_def)
      with fl show False by (simp add: flag_options_set_def)
    next
      case False
      with opt have "k \<in> set required_fields" by (simp add: option_fields_def)
      with req have "d k \<noteq> None" by (simp add: list_all_iff)
      with none show False by simp
    qed
  next
    assume fg: "k \<in> set branch_flags \<and> fst (init_args now d) = None \<and>
              snd (init_args now d) k = None"
    then have ok: "init_args now d = (None, snd (init_args now d))"
      by (cases "init_args now d") simp
    from init_args_branch_flags [OF ok] fl
    have "\<forall>j\<in>set branch_flags. snd (init_args now d) j \<noteq> None"
      by (auto simp: flag_options_set_def branch_flags_def)
    with fg show False by blast
  qed
  then show ?thesis ..
qed
section \<open>C1: options that are not given\<close>

text \<open>
  Claim C1 at the options of the end-to-end scenario, where network, subnetwork,
  service account, accelerator and storage location are \<^verbatim>\<open>None\<close> or empty and no
  required field is missing. \<^verbatim>\<open>_init_args\<close> raises nothing and sets
  \<^verbatim>\<open>accelerator_flag\<close> and \<^verbatim>\<open>storage_location_flag\<close> to the empty string, as the
  claim says; it assigns no \<^verbatim>\<open>network_flag\<close>, \<^verbatim>\<open>subnetwork_flag\<close> or
  \<^verbatim>\<open>service_account_flag\<close>, since lines 157 to 166 have no branch for that, and
  rendering the template then raises \<^verbatim>\<open>KeyError\<close> for \<^verbatim>\<open>network_flag\<close>.
\<close>

theorem empty_options_not_rendered:
  "fst (init_args demo_clock demo_options) = None \<and>
   snd (init_args demo_clock demo_options) ''accelerator_flag'' = Some (PStr []) \<and>
   snd (init_args demo_clock demo_options) ''storage_location_flag'' = Some (PStr []) \<and>
   snd (init_args demo_clock demo_options) ''network_flag'' = None \<and>
   snd (init_args demo_clock demo_options) ''subnetwork_flag'' = None \<and>
   snd (init_args demo_clock demo_options) ''service_account_flag'' = None \<and>
   fst (generate demo_clock demo_options) = Inl (KeyError ''network_flag'')"
proof -
  have "case init_args demo_clock demo_options of
          (e, d') \<Rightarrow> e = None \<and>
            d' ''accelerator_flag'' = Some (PStr []) \<and>
            d' ''storage_location_flag'' = Some (PStr []) \<and>
            d' ''network_flag'' = None \<and> d' ''subnetwork_flag'' = None \<and>
            d' ''service_account_flag'' = None"
    by code_simp
  moreover have "fst (generate demo_clock demo_options) = Inl (KeyError ''network_flag'')"
    by code_simp
  ultimately show ?thesis by (simp add: case_prod_beta)
qed

section \<open>C3: the run identifier and the derived paths\<close>

text \<open>
  Claim C3, as the code has it. When \<^verbatim>\<open>_init_args\<close> raises nothing: a
  \<^verbatim>\<open>run_id\<close> that the caller supplied is unchanged, and one that is missing is set to
  \<^verbatim>\<open>custom-image-<image_name>-<timestamp>\<close>, the timestamp being the reading of the
  clock as \<^verbatim>\<open>YYYYmmdd-HHMMSS\<close>: fifteen characters, eight digits, a hyphen and six
  digits. \<^verbatim>\<open>bucket_name\<close> is \<^verbatim>\<open>gcs_bucket\<close> with every occurrence of \<^verbatim>\<open>gs://\<close>
  removed, which is the bucket with its \<^verbatim>\<open>gs://\<close> prefix stripped whenever the
  stripped name has no \<^verbatim>\<open>gs://\<close> left in it. The paths are
  \<^verbatim>\<open>gs://<bucket_name>/<run_id>/sources\<close>, \<^verbatim>\<open>/tmp/<run_id>/logs\<close> and
  \<^verbatim>\<open>gs://<bucket_name>/<run_id>/logs\<close>.
\<close>

theorem run_id_and_paths:
  assumes ok: "fst (init_args now d) = None"
  shows "\<exists>rid b.
     snd (init_args now d) ''run_id'' = Some rid \<and>
     (d ''run_id'' \<noteq> None \<longrightarrow> d ''run_id'' = Some rid) \<and>
     (d ''run_id'' = None \<longrightarrow>
        (\<exists>name. d ''image_name'' = Some name \<and>
           rid = PStr (''custom-image-'' @ py_str name @ ''-'' @ strftime now))) \<and>
     (valid_datetime now \<longrightarrow>
        length (strftime now) = 15 \<and> list_all is_digit (take 8 (strftime now)) \<and>
        strftime now ! 8 = CHR ''-'' \<and> list_all is_digit (drop 9 (strftime now))) \<and>
     d ''gcs_bucket'' = Some (PStr b) \<and>
     snd (init_args now d) ''bucket_name'' = Some (PStr (py_replace ''gs://'' [] b)) \<and>
     (\<not> sublist ''gs://'' (strip_scheme_prefix b) \<longrightarrow>
        py_replace ''gs://'' [] b = strip_scheme_prefix b) \<and>
     snd (init_args now d) ''custom_sources_path'' =
       Some (PStr (''gs://'' @ py_replace ''gs://'' [] b @ ''/'' @ py_str rid @ ''/sources'')) \<and>
     snd (init_args now d) ''log_dir'' = Some (PStr (''/tmp/'' @ py_str rid @ ''/logs'')) \<and>
     snd (init_args now d) ''gcs_log_dir'' =
       Some (PStr (''gs://'' @ py_replace ''gs://'' [] b @ ''/'' @ py_str rid @ ''/logs''))"
proof -
  obtain d' where res: "init_args now d = (None, d')"
    using ok by (cases "init_args now d") simp
  let ?rest = "[set_network_flags, set_service_account_flag, set_no_external_ip_flag,
      set_accelerator_flag, set_storage_location_flag, set_metadata_flag]"
  from res have "exec ([set_run_id now, set_bucket_name, set_custom_sources_path,
      set_sources_map_k, set_sources_map_v, set_log_dir, set_gcs_log_dir] @ ?rest) d
      = (None, d')"
    by (simp add: init_args_def init_args_stmts_def)
  then obtain d7 where first: "exec [set_run_id now, set_bucket_name, set_custom_sources_path,
      set_sources_map_k, set_sources_map_v, set_log_dir, set_gcs_log_dir] d = (None, d7)"
    and rest: "exec ?rest d7 = (None, d')"
    by (rule exec_appendE)
  from first obtain d1 d2 d3 d4 d5 d6 where
    s1: "set_run_id now d = Inr d1" and s2: "set_bucket_name d1 = Inr d2" and
    s3: "set_custom_sources_path d2 = Inr d3" and s4: "set_sources_map_k d3 = Inr d4" and
    s5: "set_sources_map_v d4 = Inr d5" and s6: "set_log_dir d5 = Inr d6" and
    s7: "set_gcs_log_dir d6 = Inr d7"
    by (elim exec_ConsE) simp
  from s1 obtain rid where rid1: "d1 ''run_id'' = Some rid"
    and kept: "d ''run_id'' \<noteq> None \<longrightarrow> d ''run_id'' = Some rid"
    and fresh: "d ''run_id'' = None \<longrightarrow>
        (\<exists>name. d ''image_name'' = Some name \<and>
           rid = PStr (''custom-image-'' @ py_str name @ ''-'' @ strftime now))"
    and b1: "d1 ''gcs_bucket'' = d ''gcs_bucket''"
    by (auto simp: set_run_id_Inr)
  from s2 obtain b where b: "d1 ''gcs_bucket'' = Some (PStr b)"
    and d2: "d2 = d1(''bucket_name'' \<mapsto> PStr (py_replace ''gs://'' [] b))"
    by (auto simp: set_bucket_name_Inr)
  from d2 rid1 have rid2: "d2 ''run_id'' = Some rid"
    and bn2: "d2 ''bucket_name'' = Some (PStr (py_replace ''gs://'' [] b))" by simp_all
  from s3 rid2 bn2 have
    d3: "d3 = d2(''custom_sources_path'' \<mapsto>
           PStr (''gs://'' @ py_replace ''gs://'' [] b @ ''/'' @ py_str rid @ ''/sources''))"
    by (simp add: set_custom_sources_path_Inr)
  from d3 rid2 bn2 have rid3: "d3 ''run_id'' = Some rid"
    and bn3: "d3 ''bucket_name'' = Some (PStr (py_replace ''gs://'' [] b))"
    and cs3: "d3 ''custom_sources_path'' =
       Some (PStr (''gs://'' @ py_replace ''gs://'' [] b @ ''/'' @ py_str rid @ ''/sources''))"
    by simp_all
  have k4: "d4 k = d3 k" if "k \<noteq> ''sources_map_k''" for k
    using s4 that by (rule set_sources_map_k_other)
  have k5: "d5 k = d4 k" if "k \<noteq> ''sources_map_v''" for k
    using s5 that by (rule set_sources_map_v_other)
  from rid3 bn3 cs3 have rid5: "d5 ''run_id'' = Some rid"
    and bn5: "d5 ''bucket_name'' = Some (PStr (py_replace ''gs://'' [] b))"
    and cs5: "d5 ''custom_sources_path'' =
       Some (PStr (''gs://'' @ py_replace ''gs://'' [] b @ ''/'' @ py_str rid @ ''/sources''))"
    by (simp_all add: k4 k5)
  from s6 rid5 have d6: "d6 = d5(''log_dir'' \<mapsto> PStr (''/tmp/'' @ py_str rid @ ''/logs''))"
    by (simp add: set_log_dir_Inr)
  from d6 rid5 bn5 cs5 have rid6: "d6 ''run_id'' = Some rid"
    and bn6: "d6 ''bucket_name'' = Some (PStr (py_replace ''gs://'' [] b))"
    and cs6: "d6 ''custom_sources_path'' =
       Some (PStr (''gs://'' @ py_replace ''gs://'' [] b @ ''/'' @ py_str rid @ ''/sources''))"
    and ld6: "d6 ''log_dir'' = Some (PStr (''/tmp/'' @ py_str rid @ ''/logs''))"
    by simp_all
  from s7 rid6 bn6 have
    d7: "d7 = d6(''gcs_log_dir'' \<mapsto>
           PStr (''gs://'' @ py_replace ''gs://'' [] b @ ''/'' @ py_str rid @ ''/logs''))"
    by (simp add: set_gcs_log_dir_Inr)
  from d7 rid6 bn6 cs6 ld6 have rid7: "d7 ''run_id'' = Some rid"
    and bn7: "d7 ''bucket_name'' = Some (PStr (py_replace ''gs://'' [] b))"
    and cs7: "d7 ''custom_sources_path'' =
       Some (PStr (''gs://'' @ py_replace ''gs://'' [] b @ ''/'' @ py_str rid @ ''/sources''))"
    and ld7: "d7 ''log_dir'' = Some (PStr (''/tmp/'' @ py_str rid @ ''/logs''))"
    and gl7: "d7 ''gcs_log_dir'' =
       Some (PStr (''gs://'' @ py_replace ''gs://'' [] b @ ''/'' @ py_str rid @ ''/logs''))"
    by simp_all
  have "d' ''run_id'' = d7 ''run_id''"
    by (rule exec_preserves [OF _ rest]) (auto intro: stmt_other)
  moreover have "d' ''bucket_name'' = d7 ''bucket_name''"
    by (rule exec_preserves [OF _ rest]) (auto intro: stmt_other)
  moreover have "d' ''custom_sources_path'' = d7 ''custom_sources_path''"
    by (rule exec_preserves [OF _ rest]) (auto intro: stmt_other)
  moreover have "d' ''log_dir'' = d7 ''log_dir''"
    by (rule exec_preserves [OF _ rest]) (auto intro: stmt_other)
  moreover have "d' ''gcs_log_dir'' = d7 ''gcs_log_dir''"
    by (rule exec_preserves [OF _ rest]) (auto intro: stmt_other)
  ultimately have final: "d' ''run_id'' = Some rid"
    "d' ''bucket_name'' = Some (PStr (py_replace ''gs://'' [] b))"
    "d' ''custom_sources_path'' =
       Some (PStr (''gs://'' @ py_replace ''gs://'' [] b @ ''/'' @ py_str rid @ ''/sources''))"
    "d' ''log_dir'' = Some (PStr (''/tmp/'' @ py_str rid @ ''/logs''))"
    "d' ''gcs_log_dir'' =
       Some (PStr (''gs://'' @ py_replace ''gs://'' [] b @ ''/'' @ py_str rid @ ''/logs''))"
    using rid7 bn7 cs7 ld7 gl7 by simp_all
  from b b1 have bucket: "d ''gcs_bucket'' = Some (PStr b)" by simp
  have strip: "\<not> sublist ''gs://'' (strip_scheme_prefix b) \<longrightarrow>
      py_replace ''gs://'' [] b = strip_scheme_prefix b"
    by (blast intro: replace_is_strip)
  from res have snd: "snd (init_args now d) = d'" by simp
  show ?thesis
    unfolding snd
    using final kept fresh bucket strip strftime_shape [of now]
    by (intro exI [of _ rid] exI [of _ b]) simp
qed

theorem run_id_and_paths_witness:
  "fst (init_args demo_clock full_options) = None \<and>
   (\<exists>rid b.
     snd (init_args demo_clock full_options) ''run_id'' = Some rid \<and>
     (full_options ''run_id'' \<noteq> None \<longrightarrow> full_options ''run_id'' = Some rid) \<and>
     (full_options ''run_id'' = None \<longrightarrow>
        (\<exists>name. full_options ''image_name'' = Some name \<and>
           rid = PStr (''custom-image-'' @ py_str name @ ''-'' @ strftime demo_clock))) \<and>
     (valid_datetime demo_clock \<longrightarrow>
        length (strftime demo_clock) = 15 \<and> list_all is_digit (take 8 (strftime demo_clock)) \<and>
        strftime demo_clock ! 8 = CHR ''-'' \<and> list_all is_digit (drop 9 (strftime demo_clock))) \<and>
     full_options ''gcs_bucket'' = Some (PStr b) \<and>
     snd (init_args demo_clock full_options) ''bucket_name'' =
       Some (PStr (py_replace ''gs://'' [] b)) \<and>
     (\<not> sublist ''gs://'' (strip_scheme_prefix b) \<longrightarrow>
        py_replace ''gs://'' [] b = strip_scheme_prefix b) \<and>
     snd (init_args demo_clock full_options) ''custom_sources_path'' =
       Some (PStr (''gs://'' @ py_replace ''gs://'' [] b @ ''/'' @ py_str rid @ ''/sources'')) \<and>
     snd (init_args demo_clock full_options) ''log_dir'' =
       Some (PStr (''/tmp/'' @ py_str rid @ ''/logs'')) \<and>
     snd (init_args demo_clock full_options) ''gcs_log_dir'' =
       Some (PStr (''gs://'' @ py_replace ''gs://'' [] b @ ''/'' @ py_str rid @ ''/logs''))) \<and>
   full_options ''run_id'' = None \<and> valid_datetime demo_clock \<and>
   strftime demo_clock = ''20261104-090500'' \<and>
   \<not> sublist ''gs://'' (strip_scheme_prefix ''gs://b'')"
proof -
  have "full_options ''run_id'' = None"
    by (simp add: full_options_def demo_options_def)
  moreover have "valid_datetime demo_clock" by (simp add: valid_datetime_def demo_clock_def)
  moreover have "strftime demo_clock = ''20261104-090500''" by code_simp
  moreover have "\<not> sublist ''gs://'' (strip_scheme_prefix ''gs://b'')" by code_simp
  ultimately show ?thesis
    using run_id_and_paths [OF full_options_resolve] full_options_resolve by blast
qed

text \<open>
  The claim as stated fails where \<^verbatim>\<open>gs://\<close> occurs again after the prefix: the code
  removes both occurrences, stripping the prefix removes one.
\<close>

theorem bucket_prefix_counterexample:
  "fst (init_args demo_clock nested_bucket_options) = None \<and>
   nested_bucket_options ''gcs_bucket'' = Some (PStr ''gs://gs://b'') \<and>
   snd (init_args demo_clock nested_bucket_options) ''bucket_name'' = Some (PStr ''b'') \<and>
   strip_scheme_prefix ''gs://gs://b'' = ''gs://b'' \<and>
   snd (init_args demo_clock nested_bucket_options) ''bucket_name'' \<noteq>
     Some (PStr (strip_scheme_prefix ''gs://gs://b''))"
proof -
  have "case init_args demo_clock nested_bucket_options of
          (e, d') \<Rightarrow> e = None \<and> d' ''bucket_name'' = Some (PStr ''b'')"
    by code_simp
  then have "fst (init_args demo_clock nested_bucket_options) = None"
    and "snd (init_args demo_clock nested_bucket_options) ''bucket_name'' = Some (PStr ''b'')"
    by (simp_all add: case_prod_beta)
  moreover have "strip_scheme_prefix ''gs://gs://b'' = ''gs://b''" by code_simp
  moreover have "nested_bucket_options ''gcs_bucket'' = Some (PStr ''gs://gs://b'')"
    by (simp add: nested_bucket_options_def)
  ultimately show ?thesis by simp
qed


section \<open>C6: generation with an explicit run identifier is deterministic\<close>

text \<open>
  Claim C6. For build options that supply \<^verbatim>\<open>run_id\<close>, the only input besides the
  options, the reading of the clock, is not used: two runs on the same options, at any
  two times, give the same resolved dictionary and the same result of rendering.
  When the options are typed, miss no required field and set a subnetwork or a network
  and a service account, that result is a script: both runs return the same script
  text. (For options that leave these unset both runs raise the same \<^verbatim>\<open>KeyError\<close>,
  the subject of C1.)
\<close>

theorem generate_deterministic:
  assumes "d ''run_id'' \<noteq> None"
  shows "init_args now1 d = init_args now2 d \<and> generate now1 d = generate now2 d \<and>
         (well_typed d \<and> list_all (\<lambda>k. d k \<noteq> None) required_fields \<and> flag_options_set d \<longrightarrow>
            (\<exists>text. fst (generate now1 d) = Inr text \<and> fst (generate now2 d) = Inr text))"
proof -
  from assms have res: "init_args now1 d = init_args now2 d"
    by (rule init_args_explicit_run_id)
  then have gen: "generate now1 d = generate now2 d" by (simp add: generate_def)
  have "\<exists>text. fst (generate now1 d) = Inr text \<and> fst (generate now2 d) = Inr text"
    if "well_typed d" and "list_all (\<lambda>k. d k \<noteq> None) required_fields"
      and "flag_options_set d"
  proof -
    from that have "succeeds (fst (generate now1 d))" by (rule generate_renders)
    then obtain scr where "fst (generate now1 d) = Inr scr"
      by (cases "fst (generate now1 d)") (simp_all add: succeeds_def)
    with gen show ?thesis by simp
  qed
  with res gen show ?thesis by blast
qed

theorem generate_deterministic_witness:
  "run_id_options ''run_id'' \<noteq> None \<and>
   well_typed run_id_options \<and>
   list_all (\<lambda>k. run_id_options k \<noteq> None) required_fields \<and>
   flag_options_set run_id_options \<and>
   init_args demo_clock run_id_options = init_args later_clock run_id_options \<and>
   generate demo_clock run_id_options = generate later_clock run_id_options \<and>
   (\<exists>text. fst (generate demo_clock run_id_options) = Inr text \<and>
      fst (generate later_clock run_id_options) = Inr text) \<and>
   snd (generate later_clock run_id_options) ''log_dir'' = Some (PStr ''/tmp/run-1/logs'')"
proof -
  have h1: "run_id_options ''run_id'' \<noteq> None" by (simp add: run_id_options_def)
  have h2: "well_typed run_id_options"
    by (simp add: well_typed_def run_id_options_def full_options_def demo_options_def
        is_str_def is_dict_def)
  have h3: "list_all (\<lambda>k. run_id_options k \<noteq> None) required_fields"
    by (simp add: required_fields_def run_id_options_def full_options_def demo_options_def)
  have h4: "flag_options_set run_id_options"
    by (simp add: flag_options_set_def option_set_def run_id_options_def full_options_def
        demo_options_def)
  have "case init_args demo_clock run_id_options of
          (e, d') \<Rightarrow> e = None \<and> d' ''log_dir'' = Some (PStr ''/tmp/run-1/logs'')"
    by code_simp
  then have "snd (generate demo_clock run_id_options) ''log_dir'' =
      Some (PStr ''/tmp/run-1/logs'')"
    by (simp add: generate_def case_prod_beta)
  with generate_deterministic [of run_id_options demo_clock later_clock] h1 h2 h3 h4
  show ?thesis by auto
qed

section \<open>C9: a missing required field\<close>




section \<open>C10: the caller's dictionary is updated in place\<close>




end
